theory Spec2Isabelle
  imports Main "HOL-Library.Word"
begin

unbundle bit_operations_syntax

section \<open>Machine model\<close>

text \<open>
  The allocator of \<^verbatim>\<open>umem.c\<close> works on raw memory: block headers and free-list links
  are read and written through casts of \<^verbatim>\<open>void *\<close>. The model keeps that level.
  Addresses and \<^verbatim>\<open>size_t\<close> values are 64-bit words (an LP64 target:
  \<^verbatim>\<open>sizeof(size_t) = sizeof(void *) = 8\<close>), memory maps an address to a byte, and a
  \<^verbatim>\<open>size_t\<close> or pointer object is eight bytes, least significant byte first.
  Arithmetic on \<^verbatim>\<open>void *\<close> counts bytes (the GNU C rule the source relies on), so
  \<^verbatim>\<open>p + 1\<close> on a \<^verbatim>\<open>void *\<close> is one byte further, while \<^verbatim>\<open>(void **)p + 1\<close> is eight.
\<close>

type_synonym addr = "64 word"
type_synonym memory = "64 word \<Rightarrow> 8 word"

definition read64 :: "memory \<Rightarrow> addr \<Rightarrow> 64 word" where
  "read64 m a =
     ucast (m a) OR push_bit 8 (ucast (m (a + 1))) OR push_bit 16 (ucast (m (a + 2)))
       OR push_bit 24 (ucast (m (a + 3))) OR push_bit 32 (ucast (m (a + 4)))
       OR push_bit 40 (ucast (m (a + 5))) OR push_bit 48 (ucast (m (a + 6)))
       OR push_bit 56 (ucast (m (a + 7)))"

definition write64 :: "memory \<Rightarrow> addr \<Rightarrow> 64 word \<Rightarrow> memory" where
  "write64 m a v =
     (\<lambda>x. if unat (x - a) < 8 then ucast (drop_bit (8 * unat (x - a)) v) else m x)"

text \<open>
  The strategy tag. \<^verbatim>\<open>umem.h\<close>, which gives the four macros their integer values, is
  not among the sources: the tag has one constructor for each macro and one for every
  other \<^verbatim>\<open>int\<close>, which \<^verbatim>\<open>umalloc\<close> sends to its \<^verbatim>\<open>default\<close> branch.
\<close>

datatype algo = FIRST_FIT | BEST_FIT | WORST_FIT | NEXT_FIT | OTHER_ALGO

text \<open>The file's static variables, and the memory they point into.\<close>

record umem =
  mem :: memory
  memory_region :: addr
  free_list :: addr
  previous_allocated_size :: "64 word"
  alloc_algo :: algo
  region_size :: "64 word"
  is_initialized :: bool
  last_allocated :: addr

text \<open>
  The allocator owns the bytes from \<open>memory_region\<close> up to \<open>memory_region + region_size\<close>
  and nothing else. Reading or writing an eight-byte object that does not lie inside
  that range is undefined behaviour in C; the model makes it the result \<open>SegFault\<close>.
  A loop that never leaves is the result \<open>None\<close>.
\<close>

datatype fault = SegFault

definition mapped :: "umem \<Rightarrow> addr \<Rightarrow> bool" where
  "mapped s a \<longleftrightarrow>
     unat (memory_region s) \<le> unat a \<and>
     unat a + 8 \<le> unat (memory_region s) + unat (region_size s)"

definition load :: "umem \<Rightarrow> addr \<Rightarrow> 64 word" where
  "load s a = read64 (mem s) a"

definition store :: "umem \<Rightarrow> addr \<Rightarrow> 64 word \<Rightarrow> umem" where
  "store s a v = s\<lparr>mem := write64 (mem s) a v\<rparr>"

definition load_c :: "umem \<Rightarrow> addr \<Rightarrow> fault + 64 word" where
  "load_c s a = (if mapped s a then Inr (load s a) else Inl SegFault)"

definition store_c :: "umem \<Rightarrow> addr \<Rightarrow> 64 word \<Rightarrow> fault + umem" where
  "store_c s a v = (if mapped s a then Inr (store s a v) else Inl SegFault)"

text \<open>
  Straight-line code is a value of \<open>fault + 'a\<close>: \<open>seq\<close> runs the next statement unless a
  fault has happened. A loop is a value of \<open>(fault + 'a) option\<close>, and \<open>after\<close> continues
  behind a loop that has returned.
\<close>

definition seq :: "fault + 'a \<Rightarrow> ('a \<Rightarrow> fault + 'b) \<Rightarrow> fault + 'b" where
  "seq r f = (case r of Inl e \<Rightarrow> Inl e | Inr x \<Rightarrow> f x)"

definition after :: "(fault + 'a) option \<Rightarrow> ('a \<Rightarrow> (fault + 'b) option) \<Rightarrow> (fault + 'b) option" where
  "after r f = (case r of None \<Rightarrow> None | Some (Inl e) \<Rightarrow> Some (Inl e) | Some (Inr x) \<Rightarrow> f x)"

text \<open>
  A \<^verbatim>\<open>void **\<close> of the source is either the address of the static variable
  \<^verbatim>\<open>free_list\<close>, which lies outside the region, or an address in memory
  (the null \<^verbatim>\<open>void **\<close> is \<open>Field 0\<close>).
\<close>

datatype link = Head | Field addr

definition store_link :: "umem \<Rightarrow> link \<Rightarrow> addr \<Rightarrow> fault + umem" where
  "store_link s l v = (case l of Head \<Rightarrow> Inr (s\<lparr>free_list := v\<rparr>) | Field a \<Rightarrow> store_c s a v)"

abbreviation NULL :: addr where
  "NULL \<equiv> 0"

definition PAGE_SIZE :: "64 word" where
  "PAGE_SIZE = 4096"

definition UMEM_ERROR :: int where
  "UMEM_ERROR = - 1"

definition MAP_FAILED :: addr where
  "MAP_FAILED = - 1"

definition SIZE_MAX :: "64 word" where
  "SIZE_MAX = - 1"

section \<open>Initialisation\<close>

text \<open>
  \<^verbatim>\<open>umeminit\<close>. The address \<open>mmap_answer\<close> is what the operating system returns for the
  anonymous mapping; \<^verbatim>\<open>mmap\<close> fails for a length of zero. The fresh mapping is
  zero-filled. The two stores that set up the first free block go to the start of the
  fresh mapping, before \<open>region_size\<close> is assigned.
\<close>

definition os_mmap :: "64 word \<Rightarrow> addr \<Rightarrow> addr" where
  "os_mmap len mmap_answer = (if len = 0 then MAP_FAILED else mmap_answer)"

definition umeminit :: "64 word \<Rightarrow> algo \<Rightarrow> addr \<Rightarrow> umem \<Rightarrow> int \<times> umem" where
  "umeminit sizeOfRegion allocationAlgo mmap_answer s =
     (if is_initialized s then (UMEM_ERROR, s)
      else if sizeOfRegion \<le> 0 then (UMEM_ERROR, s)
      else
        let sizeOfRegion = (sizeOfRegion + PAGE_SIZE - 1) AND NOT (PAGE_SIZE - 1);
            s = s\<lparr>memory_region := os_mmap sizeOfRegion mmap_answer\<rparr>
        in if memory_region s = MAP_FAILED then (UMEM_ERROR, s)
           else
             let s = s\<lparr>mem := (\<lambda>_. 0)\<rparr>;
                 s = s\<lparr>free_list := memory_region s\<rparr>;
                 s = s\<lparr>mem := write64 (mem s) (free_list s) (sizeOfRegion - 8)\<rparr>;
                 s = s\<lparr>mem := write64 (mem s) (free_list s + 8) NULL\<rparr>;
                 s = s\<lparr>alloc_algo := allocationAlgo\<rparr>;
                 s = s\<lparr>previous_allocated_size := sizeOfRegion\<rparr>;
                 s = s\<lparr>region_size := sizeOfRegion\<rparr>;
                 s = s\<lparr>is_initialized := True\<rparr>
             in (0, s))"

text \<open>
  The static variables as the program starts. \<^verbatim>\<open>alloc_algo\<close> has no initialiser; the tag
  it starts with is overwritten by \<^verbatim>\<open>umeminit\<close> before any call below reads it.
\<close>

definition startup :: umem where
  "startup = \<lparr>mem = (\<lambda>_. 0), memory_region = NULL, free_list = NULL,
     previous_allocated_size = 0, alloc_algo = OTHER_ALGO, region_size = 0,
     is_initialized = False, last_allocated = NULL\<rparr>"

section \<open>Release and coalescing\<close>

text \<open>
  The insertion scan of \<^verbatim>\<open>ufree\<close>: it walks the list while the current block lies
  below the block to free, and returns the last block passed and the block it stopped at.
\<close>

partial_function (option) ufree_scan ::
  "umem \<Rightarrow> addr \<Rightarrow> addr \<Rightarrow> addr \<Rightarrow> (fault + addr \<times> addr) option" where
  [code]: "ufree_scan s block_to_free prev_block current_block =
     (if current_block \<noteq> NULL \<and> current_block < block_to_free then
        if mapped s (current_block + 8)
        then ufree_scan s block_to_free current_block (load s (current_block + 8))
        else Some (Inl SegFault)
      else Some (Inr (prev_block, current_block)))"

text \<open>
  The loop of \<^verbatim>\<open>coalescing_memory\<close>. The second store reads the successor's link
  after the size has been written, as the source does.
\<close>

partial_function (option) coalescing_loop :: "umem \<Rightarrow> addr \<Rightarrow> (fault + umem) option" where
  [code]: "coalescing_loop s current_block =
     (if current_block = NULL then Some (Inr s)
      else if \<not> mapped s (current_block + 8) then Some (Inl SegFault)
      else if load s (current_block + 8) = NULL then Some (Inr s)
      else
        let next_block = load s (current_block + 8) in
        if \<not> mapped s current_block then Some (Inl SegFault)
        else if current_block + load s current_block + 8 = next_block then
          if \<not> mapped s next_block \<or> \<not> mapped s (next_block + 8) then Some (Inl SegFault)
          else
            let s1 = store s current_block (load s current_block + (load s next_block + 8));
                s2 = store s1 (current_block + 8) (load s1 (next_block + 8))
            in coalescing_loop s2 current_block
        else coalescing_loop s (load s (current_block + 8)))"

definition coalescing_memory :: "umem \<Rightarrow> (fault + umem) option" where
  "coalescing_memory s = coalescing_loop s (free_list s)"

text \<open>
  \<^verbatim>\<open>ufree\<close>. The size of the block is read for the diagnostic line before anything
  else, so a pointer whose header is not in the region faults there. What is printed is
  not part of the model.
\<close>

definition ufree :: "addr \<Rightarrow> umem \<Rightarrow> (fault + int \<times> umem) option" where
  "ufree ptr s =
     (if ptr = NULL then Some (Inr (UMEM_ERROR, s))
      else
        let block_to_free = ptr - 8 in
        after (Some (load_c s block_to_free)) (\<lambda>block_size.
        after (ufree_scan s block_to_free NULL (free_list s)) (\<lambda>(prev_block, current_block).
        after (Some (if prev_block \<noteq> NULL then store_c s (prev_block + 8) block_to_free
                     else Inr (s\<lparr>free_list := block_to_free\<rparr>))) (\<lambda>s.
        after (Some (store_c s (block_to_free + 8) current_block)) (\<lambda>s.
        after (coalescing_memory s) (\<lambda>s.
        Some (Inr (0, s))))))))"

section \<open>Introspection\<close>

text \<open>
  \<^verbatim>\<open>umemdump\<close> prints one row for each block of the list: its ordinal, its size
  and its address. The model returns the rows.
\<close>

partial_function (option) umemdump_loop ::
  "umem \<Rightarrow> addr \<Rightarrow> 64 word \<Rightarrow> (64 word \<times> 64 word \<times> addr) list
     \<Rightarrow> (fault + (64 word \<times> 64 word \<times> addr) list) option" where
  [code]: "umemdump_loop s current_block block_number rows =
     (if current_block = NULL then Some (Inr rows)
      else if \<not> mapped s current_block \<or> \<not> mapped s (current_block + 8) then Some (Inl SegFault)
      else umemdump_loop s (load s (current_block + 8)) (block_number + 1)
             (rows @ [(block_number, load s current_block, current_block)]))"

definition umemdump :: "umem \<Rightarrow> (fault + (64 word \<times> 64 word \<times> addr) list) option" where
  "umemdump s = umemdump_loop s (free_list s) 1 []"

section \<open>Placement strategies\<close>

text \<open>
  Each strategy is its search loop followed by what it does with the block found. The
  functions \<^verbatim>\<open>allocate_memory_block\<close> and \<^verbatim>\<open>print_free_list\<close> of the source are called
  from no entry point and are not modelled.
\<close>

subsection \<open>First fit\<close>

text \<open>
  The search loop of \<^verbatim>\<open>first_fit_algorithm\<close>: it returns the first block whose size is
  at least \<open>sz\<close> together with the block passed before it, or nothing at the end of
  the list.
\<close>

partial_function (option) first_fit_scan ::
  "umem \<Rightarrow> 64 word \<Rightarrow> addr \<Rightarrow> addr \<Rightarrow> (fault + (addr \<times> addr) option) option" where
  [code]: "first_fit_scan s sz prev_block current_block =
     (if current_block = NULL then Some (Inr None)
      else if \<not> mapped s current_block then Some (Inl SegFault)
      else if load s current_block \<ge> sz then Some (Inr (Some (prev_block, current_block)))
      else if \<not> mapped s (current_block + 8) then Some (Inl SegFault)
      else first_fit_scan s sz current_block (load s (current_block + 8)))"

text \<open>
  What the loop body does with the block it found. The link of the previous block is
  written through \<^verbatim>\<open>(void **)(prev_block + 1)\<close>, where \<^verbatim>\<open>prev_block\<close> is a
  \<^verbatim>\<open>void *\<close>: one byte after the start of the previous block. The link of the new
  block is written through \<^verbatim>\<open>(void **)new_block + 1\<close>: eight bytes after its start.
\<close>

definition first_fit_take :: "umem \<Rightarrow> 64 word \<Rightarrow> addr \<Rightarrow> addr \<Rightarrow> fault + addr \<times> umem" where
  "first_fit_take s sz prev_block current_block =
     seq (load_c s current_block) (\<lambda>block_size.
     seq (if block_size > sz + 8 then
            let new_block = current_block + 8 + sz in
            seq (store_c s new_block (block_size - sz - 8)) (\<lambda>s.
            seq (load_c s (current_block + 8)) (\<lambda>next_block.
            seq (store_c s (new_block + 8) next_block) (\<lambda>s.
            seq (store_c s current_block sz) (\<lambda>s.
            if prev_block \<noteq> NULL then store_c s (prev_block + 1) new_block else Inr s))))
          else Inr s) (\<lambda>s.
     seq (load_c s (current_block + 8)) (\<lambda>next_block.
     seq (if prev_block = NULL then Inr (s\<lparr>free_list := next_block\<rparr>)
          else store_c s (prev_block + 1) next_block) (\<lambda>s.
     Inr (current_block + 8, s)))))"

definition first_fit_algorithm :: "64 word \<Rightarrow> umem \<Rightarrow> (fault + addr \<times> umem) option" where
  "first_fit_algorithm sz s =
     (let sz = (sz + 7) AND NOT 7 in
      after (first_fit_scan s sz NULL (free_list s)) (\<lambda>found.
        case found of
          None \<Rightarrow> Some (Inr (NULL, s))
        | Some (prev_block, current_block) \<Rightarrow> Some (first_fit_take s sz prev_block current_block)))"

subsection \<open>Best fit\<close>

text \<open>
  The search loop of \<^verbatim>\<open>best_fit_algorithm\<close>, with the loop's variables as arguments.
\<close>

partial_function (option) best_fit_scan ::
  "umem \<Rightarrow> 64 word \<Rightarrow> link \<Rightarrow> addr \<Rightarrow> addr \<Rightarrow> link \<Rightarrow> 64 word
     \<Rightarrow> (fault + addr \<times> link \<times> 64 word) option" where
  [code]: "best_fit_scan s sz prev_pointer current_block best_block best_prev_pointer smallest_diff =
     (if current_block = NULL then Some (Inr (best_block, best_prev_pointer, smallest_diff))
      else if \<not> mapped s current_block \<or> \<not> mapped s (current_block + 8) then Some (Inl SegFault)
      else
        let current_size = load s current_block in
        if current_size \<ge> sz \<and> current_size - sz < smallest_diff
        then best_fit_scan s sz (Field (current_block + 8)) (load s (current_block + 8))
               current_block prev_pointer (current_size - sz)
        else best_fit_scan s sz (Field (current_block + 8)) (load s (current_block + 8))
               best_block best_prev_pointer smallest_diff)"

definition best_fit_take :: "umem \<Rightarrow> 64 word \<Rightarrow> addr \<Rightarrow> link \<Rightarrow> fault + addr \<times> umem" where
  "best_fit_take s sz best_block best_prev_pointer =
     seq (load_c s best_block) (\<lambda>best_size.
     let remaining_size = best_size - sz in
     seq (if remaining_size > 8 + 8 then
            let new_block = best_block + 8 + sz in
            seq (store_c s new_block (remaining_size - 8)) (\<lambda>s.
            seq (load_c s (best_block + 8)) (\<lambda>next_block.
            seq (store_c s (new_block + 8) next_block) (\<lambda>s.
            seq (store_c s best_block sz) (\<lambda>s.
            store_link s best_prev_pointer new_block))))
          else
            seq (load_c s (best_block + 8)) (\<lambda>next_block.
            store_link s best_prev_pointer next_block)) (\<lambda>s.
     Inr (best_block + 8, s)))"

definition best_fit_algorithm :: "64 word \<Rightarrow> umem \<Rightarrow> (fault + addr \<times> umem) option" where
  "best_fit_algorithm sz s =
     (let sz = (sz + 8 - 1) AND NOT (8 - 1) in
      after (best_fit_scan s sz Head (free_list s) NULL (Field NULL) SIZE_MAX)
        (\<lambda>(best_block, best_prev_pointer, smallest_diff).
           if best_block \<noteq> NULL then Some (best_fit_take s sz best_block best_prev_pointer)
           else Some (Inr (NULL, s))))"

subsection \<open>Worst fit\<close>

partial_function (option) worst_fit_scan ::
  "umem \<Rightarrow> 64 word \<Rightarrow> link \<Rightarrow> addr \<Rightarrow> addr \<Rightarrow> link \<Rightarrow> 64 word
     \<Rightarrow> (fault + addr \<times> link \<times> 64 word) option" where
  [code]: "worst_fit_scan s sz prev_pointer current_block worst_block worst_prev_pointer largest_diff =
     (if current_block = NULL then Some (Inr (worst_block, worst_prev_pointer, largest_diff))
      else if \<not> mapped s current_block \<or> \<not> mapped s (current_block + 8) then Some (Inl SegFault)
      else
        let current_size = load s current_block in
        if current_size \<ge> sz \<and> current_size - sz > largest_diff
        then worst_fit_scan s sz (Field (current_block + 8)) (load s (current_block + 8))
               current_block prev_pointer (current_size - sz)
        else worst_fit_scan s sz (Field (current_block + 8)) (load s (current_block + 8))
               worst_block worst_prev_pointer largest_diff)"

definition worst_fit_take :: "umem \<Rightarrow> 64 word \<Rightarrow> addr \<Rightarrow> link \<Rightarrow> fault + addr \<times> umem" where
  "worst_fit_take s sz worst_block worst_prev_pointer =
     seq (load_c s worst_block) (\<lambda>worst_size.
     let remaining_size = worst_size - sz - 8 in
     seq (if remaining_size > 8 then
            let new_block = worst_block + 8 + sz in
            seq (store_c s new_block remaining_size) (\<lambda>s.
            seq (load_c s (worst_block + 8)) (\<lambda>next_block.
            seq (store_c s (new_block + 8) next_block) (\<lambda>s.
            store_link s worst_prev_pointer new_block)))
          else
            seq (load_c s (worst_block + 8)) (\<lambda>next_block.
            store_link s worst_prev_pointer next_block)) (\<lambda>s.
     seq (store_c s worst_block sz) (\<lambda>s.
     Inr (worst_block + 8, s))))"

definition worst_fit_algorithm :: "64 word \<Rightarrow> umem \<Rightarrow> (fault + addr \<times> umem) option" where
  "worst_fit_algorithm sz s =
     after (worst_fit_scan s sz Head (free_list s) NULL (Field NULL) 0)
       (\<lambda>(worst_block, worst_prev_pointer, largest_diff).
          if worst_block \<noteq> NULL then Some (worst_fit_take s sz worst_block worst_prev_pointer)
          else Some (Inr (NULL, s)))"

subsection \<open>Next fit\<close>

text \<open>
  The test at the head of \<^verbatim>\<open>next_fit_algorithm\<close>: the cursor \<^verbatim>\<open>last_allocated\<close> is
  replaced by the list head when it is null or lies outside the bounds of the region.
\<close>

definition next_fit_cursor :: "umem \<Rightarrow> umem" where
  "next_fit_cursor s =
     (if last_allocated s = NULL \<or> last_allocated s < memory_region s \<or>
         last_allocated s \<ge> memory_region s + region_size s
      then s\<lparr>last_allocated := free_list s\<rparr> else s)"

text \<open>
  The \<^verbatim>\<open>do \<dots> while\<close> loop. On a split the cursor moves to the new block before the
  return value is computed from it.
\<close>

partial_function (option) next_fit_loop ::
  "umem \<Rightarrow> 64 word \<Rightarrow> addr \<Rightarrow> (fault + addr \<times> umem) option" where
  [code]: "next_fit_loop s sz start =
     (if \<not> mapped s (last_allocated s) then Some (Inl SegFault)
      else
        let current_size = load s (last_allocated s) in
        if current_size \<ge> sz then
          let remaining_size = current_size - sz - 8 in
          if remaining_size > 8 * 2 then
            let new_block = last_allocated s + sz + 8 in
            if \<not> mapped s new_block \<or> \<not> mapped s (last_allocated s + 8) \<or> \<not> mapped s (new_block + 8)
            then Some (Inl SegFault)
            else
              let s = store s new_block remaining_size;
                  s = store s (new_block + 8) (load s (last_allocated s + 8));
                  s = store s (last_allocated s) sz;
                  s = s\<lparr>last_allocated := new_block\<rparr>
              in Some (Inr (last_allocated s + 8, s))
          else Some (Inr (last_allocated s + 8, s))
        else if \<not> mapped s (last_allocated s + 8) then Some (Inl SegFault)
        else
          let s = s\<lparr>last_allocated := load s (last_allocated s + 8)\<rparr>;
              s = (if last_allocated s = NULL then s\<lparr>last_allocated := free_list s\<rparr> else s)
          in if last_allocated s \<noteq> start then next_fit_loop s sz start
             else Some (Inr (NULL, s)))"

definition next_fit_algorithm :: "64 word \<Rightarrow> umem \<Rightarrow> (fault + addr \<times> umem) option" where
  "next_fit_algorithm sz s =
     (let sz = (sz + 8 - 1) AND NOT (8 - 1);
          s = next_fit_cursor s
      in next_fit_loop s sz (last_allocated s))"

subsection \<open>Dispatch\<close>

definition umalloc :: "64 word \<Rightarrow> umem \<Rightarrow> (fault + addr \<times> umem) option" where
  "umalloc sz s =
     (case alloc_algo s of
        FIRST_FIT \<Rightarrow> first_fit_algorithm sz s
      | BEST_FIT \<Rightarrow> best_fit_algorithm sz s
      | WORST_FIT \<Rightarrow> worst_fit_algorithm sz s
      | NEXT_FIT \<Rightarrow> next_fit_algorithm sz s
      | OTHER_ALGO \<Rightarrow> Some (Inr (NULL, s)))"

section \<open>The free registry and the partition of the region\<close>

text \<open>
  The Free Registry is the list threaded through memory from \<open>free_list\<close>: \<open>registry s xs\<close>
  says that following the links from the head visits exactly the block addresses \<open>xs\<close>,
  in this order, and then reaches the null pointer.
\<close>

fun flist :: "memory \<Rightarrow> addr \<Rightarrow> addr list \<Rightarrow> bool" where
  "flist m p [] = (p = NULL)"
| "flist m p (x # xs) = (p = x \<and> x \<noteq> NULL \<and> flist m (read64 m (x + 8)) xs)"

definition registry :: "umem \<Rightarrow> addr list \<Rightarrow> bool" where
  "registry s xs = flist (mem s) (free_list s) xs"

text \<open>
  The partition invariant of the specification, for a list of block addresses: the first
  block starts at the region base, each block's header address plus the header size plus
  its recorded size is the address of the next block, and for the last block it is the
  end of the region.
\<close>

fun tiles :: "umem \<Rightarrow> nat \<Rightarrow> addr list \<Rightarrow> bool" where
  "tiles s a [] = (a = unat (memory_region s) + unat (region_size s))"
| "tiles s a (b # bs) =
     (unat b = a \<and> mapped s b \<and> tiles s (unat b + 8 + unat (load s b)) bs)"

definition partition :: "umem \<Rightarrow> addr list \<Rightarrow> bool" where
  "partition s bs = tiles s (unat (memory_region s)) bs"

section \<open>Well-formed registries\<close>

text \<open>
  The mapping lies above the null page and does not wrap around the address space
  (what \<^verbatim>\<open>mmap\<close> guarantees for its answer).
\<close>

definition region_ok :: "umem \<Rightarrow> bool" where
  "region_ok s \<longleftrightarrow>
     unat PAGE_SIZE \<le> unat (memory_region s) \<and>
     unat (memory_region s) + unat (region_size s) < 2 ^ 64"

text \<open>
  The blocks of a list lie inside the region, in ascending address order and without
  overlap; each has room for its link (its size is at least a pointer) and a size that
  is a multiple of the word width. This is the shape in which \<^verbatim>\<open>umeminit\<close> leaves the
  registry and which splitting with rounded requests and coalescing of neighbours keep.
\<close>

fun wf_blocks :: "umem \<Rightarrow> nat \<Rightarrow> addr list \<Rightarrow> bool" where
  "wf_blocks s lo [] = (lo \<le> unat (memory_region s) + unat (region_size s))"
| "wf_blocks s lo (x # xs) =
     (lo \<le> unat x \<and> 8 \<le> unat (load s x) \<and> 8 dvd unat (load s x) \<and>
      wf_blocks s (unat x + 8 + unat (load s x)) xs)"

definition wf_registry :: "umem \<Rightarrow> addr list \<Rightarrow> bool" where
  "wf_registry s xs \<longleftrightarrow>
     region_ok s \<and> registry s xs \<and> wf_blocks s (unat (memory_region s)) xs"

text \<open>A part of the list: from \<open>p\<close> through the blocks \<open>xs\<close> to \<open>q\<close>.\<close>

fun lseg :: "memory \<Rightarrow> addr \<Rightarrow> addr list \<Rightarrow> addr \<Rightarrow> bool" where
  "lseg m p [] q = (p = q)"
| "lseg m p (x # xs) q = (p = x \<and> x \<noteq> NULL \<and> lseg m (read64 m (x + 8)) xs q)"

text \<open>
  The request rounded up to the word width, as \<^verbatim>\<open>first_fit_algorithm\<close>,
  \<^verbatim>\<open>best_fit_algorithm\<close> and \<^verbatim>\<open>next_fit_algorithm\<close> compute it.
\<close>

definition align_up :: "64 word \<Rightarrow> 64 word" where
  "align_up n = (n + 8 - 1) AND NOT (8 - 1)"

text \<open>
  What the searches of best fit and first fit compute, as functions on the list of
  the registry's blocks and the sizes in their headers. They are not part of the model:
  \<open>best_fit_scan_pick\<close> and \<open>first_fit_scan_pick\<close> below show that the scans of the model
  compute them on a registry whose blocks lie in the region.
\<close>

fun best_pick ::
  "(addr \<Rightarrow> 64 word) \<Rightarrow> 64 word \<Rightarrow> link \<Rightarrow> addr list \<Rightarrow> addr \<Rightarrow> link \<Rightarrow> 64 word
     \<Rightarrow> addr \<times> link \<times> 64 word" where
  "best_pick size_at sz prev_pointer [] best_block best_prev_pointer smallest_diff =
     (best_block, best_prev_pointer, smallest_diff)"
| "best_pick size_at sz prev_pointer (x # xs) best_block best_prev_pointer smallest_diff =
     (if size_at x \<ge> sz \<and> size_at x - sz < smallest_diff
      then best_pick size_at sz (Field (x + 8)) xs x prev_pointer (size_at x - sz)
      else best_pick size_at sz (Field (x + 8)) xs best_block best_prev_pointer smallest_diff)"

fun first_pick ::
  "(addr \<Rightarrow> 64 word) \<Rightarrow> 64 word \<Rightarrow> addr \<Rightarrow> addr list \<Rightarrow> (addr \<times> addr) option" where
  "first_pick size_at sz prev_block [] = None"
| "first_pick size_at sz prev_block (x # xs) =
     (if size_at x \<ge> sz then Some (prev_block, x) else first_pick size_at sz x xs)"

section \<open>Runs of the allocator\<close>

text \<open>
  The state a call leaves behind, and the state after \<^verbatim>\<open>umeminit(4096, a)\<close> in a fresh
  process whose mapping was placed at address 65536. The runs below start there; each
  later state is the one left by the call named in its definition.
\<close>

definition state_of :: "(fault + 'a \<times> umem) option \<Rightarrow> umem" where
  "state_of r = (case r of Some (Inr (x, s)) \<Rightarrow> s | _ \<Rightarrow> startup)"

definition boot :: "algo \<Rightarrow> umem" where
  "boot a = snd (umeminit 4096 a 65536 startup)"

text \<open>Worst fit: a request of 4075 bytes; a request of 4072 bytes and its release.\<close>

definition worst_lost :: umem where
  "worst_lost = state_of (umalloc 4075 (boot WORST_FIT))"

definition worst_b1 :: umem where
  "worst_b1 = state_of (umalloc 4072 (boot WORST_FIT))"

definition worst_b2 :: umem where
  "worst_b2 = state_of (ufree 65544 worst_b1)"

text \<open>Best fit: a request of 100 bytes and its release.\<close>

definition best_b1 :: umem where
  "best_b1 = state_of (umalloc 100 (boot BEST_FIT))"

definition best_b2 :: umem where
  "best_b2 = state_of (ufree 65544 best_b1)"

text \<open>
  Next fit: a request of 100 bytes, and the state in which the scan of the following
  request of 5000 bytes goes round, with the cursor on the list head.
\<close>

definition next_c1 :: umem where
  "next_c1 = state_of (umalloc 100 (boot NEXT_FIT))"

definition next_spin :: umem where
  "next_spin = next_c1\<lparr>last_allocated := 65536\<rparr>"

text \<open>
  Next fit: a request of 4072 bytes, and the state in which \<^verbatim>\<open>ufree\<close> of the returned
  pointer enters \<^verbatim>\<open>coalescing_memory\<close>: the block at 65536 is the list head and its own
  successor.
\<close>

definition next_d1 :: umem where
  "next_d1 = state_of (umalloc 4072 (boot NEXT_FIT))"

definition next_knot :: umem where
  "next_knot = store (next_d1\<lparr>free_list := 65536\<rparr>) 65544 65536"

text \<open>Next fit: four requests and three releases.\<close>

definition next_a1 :: umem where
  "next_a1 = state_of (umalloc 4040 (boot NEXT_FIT))"

definition next_a2 :: umem where
  "next_a2 = state_of (umalloc 500 next_a1)"

definition next_a3 :: umem where
  "next_a3 = state_of (ufree 66056 next_a2)"

definition next_a4 :: umem where
  "next_a4 = state_of (umalloc 100 next_a3)"

definition next_a5 :: umem where
  "next_a5 = state_of (umalloc 100 next_a4)"

definition next_a6 :: umem where
  "next_a6 = state_of (ufree 66168 next_a5)"

definition next_a7 :: umem where
  "next_a7 = state_of (ufree 69592 next_a6)"

text \<open>
  Best fit: requests of 16, 8, 16 and 8 bytes, the release of the two 16-byte blocks,
  and then a request of 10 bytes or one of 100 bytes.
\<close>

definition best_w1 :: umem where
  "best_w1 = state_of (umalloc 16 (boot BEST_FIT))"

definition best_w2 :: umem where
  "best_w2 = state_of (umalloc 8 best_w1)"

definition best_w3 :: umem where
  "best_w3 = state_of (umalloc 16 best_w2)"

definition best_w4 :: umem where
  "best_w4 = state_of (umalloc 8 best_w3)"

definition best_w5 :: umem where
  "best_w5 = state_of (ufree 65544 best_w4)"

definition best_w6 :: umem where
  "best_w6 = state_of (ufree 65584 best_w5)"

definition best_w7 :: umem where
  "best_w7 = state_of (umalloc 10 best_w6)"

definition best_w8 :: umem where
  "best_w8 = state_of (umalloc 100 best_w6)"

text \<open>
  First fit: a request of 100 bytes; a request of 4072 bytes. Best fit: a request of 4080
  bytes.
\<close>

definition first_f1 :: umem where
  "first_f1 = state_of (umalloc 100 (boot FIRST_FIT))"

definition first_e1 :: umem where
  "first_e1 = state_of (umalloc 4072 (boot FIRST_FIT))"

definition best_e1 :: umem where
  "best_e1 = state_of (umalloc 4080 (boot BEST_FIT))"

section \<open>Reading and writing memory\<close>

text \<open>
  A word read back from where it was written is the word written; a word read from eight
  bytes that a write did not touch is unchanged. The distance test is on the differences
  of the two addresses in both directions, so it is also right for objects that wrap
  around the end of the address space.
\<close>

lemma byte_bit:
  "bit (ucast (ucast (drop_bit k (v::64 word)) :: 8 word) :: 64 word) n = (n < 8 \<and> bit v (k + n))"
  by (auto simp add: bit_simps dest: bit_imp_le_length)

lemma byte_bit0:
  "bit (ucast (ucast (v::64 word) :: 8 word) :: 64 word) n = (n < 8 \<and> bit v n)"
  using byte_bit [of 0 v n] by simp

lemma bytes_cat:
  fixes v :: "64 word"
  shows "ucast (ucast v :: 8 word) OR push_bit 8 (ucast (ucast (drop_bit 8 v) :: 8 word))
     OR push_bit 16 (ucast (ucast (drop_bit 16 v) :: 8 word))
     OR push_bit 24 (ucast (ucast (drop_bit 24 v) :: 8 word))
     OR push_bit 32 (ucast (ucast (drop_bit 32 v) :: 8 word))
     OR push_bit 40 (ucast (ucast (drop_bit 40 v) :: 8 word))
     OR push_bit 48 (ucast (ucast (drop_bit 48 v) :: 8 word))
     OR push_bit 56 (ucast (ucast (drop_bit 56 v) :: 8 word)) = v" (is "?l = v")
proof (rule bit_word_eqI)
  fix n :: nat
  assume "n < LENGTH(64)"
  then have n: "n < 64" by simp
  consider "n < 8" | "8 \<le> n" "n < 16" | "16 \<le> n" "n < 24" | "24 \<le> n" "n < 32"
    | "32 \<le> n" "n < 40" | "40 \<le> n" "n < 48" | "48 \<le> n" "n < 56" | "56 \<le> n" "n < 64"
    using n by linarith
  then show "bit ?l n = bit v n"
    by cases (auto simp add: bit_or_iff bit_push_bit_iff byte_bit byte_bit0 bit_drop_bit_eq)
qed

lemma read64_write64_same: "read64 (write64 m a v) a = v"
  unfolding read64_def write64_def
  by (simp add: bytes_cat)

lemma unat_shift_small:
  fixes d e :: "64 word"
  assumes "8 \<le> unat d" and "8 \<le> unat e" and "e = 0 - d" and "k < 8"
  shows "\<not> unat (d + of_nat k) < 8"
proof -
  have "unat e = 2 ^ 64 - unat d"
    using assms(1) unat_sub_if' [of 0 d] unfolding assms(3) by simp
  with assms have le: "unat d + k < 2 ^ 64" by simp
  have "unat (d + of_nat k) = (unat d + k) mod 2 ^ 64"
    by (simp add: unat_word_ariths unat_of_nat mod_add_right_eq)
  with le have "unat (d + of_nat k) = unat d + k" by simp
  with assms(1) show ?thesis by simp
qed

lemma read64_write64_disj:
  assumes "8 \<le> unat (b - a)" and "8 \<le> unat (a - b)"
  shows "read64 (write64 m a v) b = read64 m b"
proof -
  have k: "\<not> unat (b + of_nat k - a) < 8" if "k < 8" for k
  proof -
    have e: "b + of_nat k - a = (b - a) + of_nat k" by simp
    have "a - b = 0 - (b - a)" by simp
    from unat_shift_small [OF assms this that] show ?thesis
      unfolding e .
  qed
  from k [of 0] k [of 1] k [of 2] k [of 3] k [of 4] k [of 5] k [of 6] k [of 7]
  show ?thesis by (simp add: read64_def write64_def)
qed

lemma read64_zero: "read64 (\<lambda>_. 0) a = 0"
  by (simp add: read64_def)

lemma load_store_same [simp]: "load (store s a v) a = v"
  by (simp add: load_def store_def read64_write64_same)

lemma load_store_disj:
  "8 \<le> unat (b - a) \<Longrightarrow> 8 \<le> unat (a - b) \<Longrightarrow> load (store s a v) b = load s b"
  by (simp add: load_def store_def read64_write64_disj)

lemma load_upd [simp]:
  "load (s\<lparr>free_list := x\<rparr>) a = load s a"
  "load (s\<lparr>last_allocated := x\<rparr>) a = load s a"
  by (simp_all add: load_def)

lemma mapped_upd [simp]:
  "mapped (store s a v) b = mapped s b"
  "mapped (s\<lparr>free_list := x\<rparr>) b = mapped s b"
  "mapped (s\<lparr>last_allocated := x\<rparr>) b = mapped s b"
  by (simp_all add: mapped_def store_def)

lemma store_fields [simp]:
  "memory_region (store s a v) = memory_region s"
  "region_size (store s a v) = region_size s"
  "free_list (store s a v) = free_list s"
  "last_allocated (store s a v) = last_allocated s"
  "alloc_algo (store s a v) = alloc_algo s"
  by (simp_all add: store_def)

lemma registry_upd [simp]:
  "registry (s\<lparr>last_allocated := x\<rparr>) xs = registry s xs"
  by (simp add: registry_def)

lemma unat_plus:
  fixes x y :: "64 word"
  shows "unat x + unat y < 2 ^ 64 \<Longrightarrow> unat (x + y) = unat x + unat y"
  using unat_add_lem [of x y] by simp

lemma unat_plus8:
  fixes x :: "64 word"
  shows "unat x + 8 < 2 ^ 64 \<Longrightarrow> unat (x + 8) = unat x + 8"
  using unat_plus [of x 8] by simp

lemma unat_minus_le:
  fixes x y :: "64 word"
  shows "y \<le> x \<Longrightarrow> unat (x - y) = unat x - unat y"
  by (simp add: unat_sub_if' word_le_nat_alt)

lemma load_store_other:
  assumes "unat p + 8 \<le> unat q \<or> unat q + 8 \<le> unat p"
    and "unat p + 8 \<le> 2 ^ 64" and "unat q + 8 \<le> 2 ^ 64"
  shows "load (store s p v) q = load s q"
proof (rule load_store_disj)
  show "8 \<le> unat (q - p)" using assms by (simp add: unat_sub_if') arith
  show "8 \<le> unat (p - q)" using assms by (simp add: unat_sub_if') arith
qed

section \<open>Running the model on concrete states\<close>

text \<open>
  The facts that let the simplifier run a call on a concrete state: the definitions of
  the entry points and the unfolding equations of the scans. Each run below is computed
  one call at a time, from the values that the state before the call holds at the
  addresses the call reads.
\<close>

lemmas run = load_store_disj mapped_def load_c_def store_c_def seq_def after_def store_link_def
  Let_def SIZE_MAX_def ufree_def coalescing_memory_def umalloc_def
  first_fit_algorithm_def first_fit_take_def best_fit_algorithm_def best_fit_take_def
  worst_fit_algorithm_def worst_fit_take_def next_fit_algorithm_def next_fit_cursor_def
  ufree_scan.simps coalescing_loop.simps first_fit_scan.simps best_fit_scan.simps
  worst_fit_scan.simps next_fit_loop.simps state_of_def

lemma boot_facts:
  "umeminit 4096 a 65536 startup = (0, boot a)"
  "memory_region (boot a) = 65536" "region_size (boot a) = 4096" "free_list (boot a) = 65536"
  "last_allocated (boot a) = NULL" "alloc_algo (boot a) = a"
  "load (boot a) 65536 = 4088" "load (boot a) 65544 = 0"
  by (simp_all add: boot_def umeminit_def startup_def os_mmap_def PAGE_SIZE_def MAP_FAILED_def
      Let_def load_def read64_write64_same read64_write64_disj)

lemma registry_boot: "registry (boot a) [65536]"
  using boot_facts [of a] by (simp add: registry_def load_def)

lemma wf_registry_boot: "wf_registry (boot a) [65536]"
  using registry_boot [of a]
  by (simp add: wf_registry_def region_ok_def PAGE_SIZE_def boot_facts)

lemma zero_less_max: "(0 :: 64 word) < - 1"
  by (simp add: word_less_nat_alt unsigned_minus_1_eq_mask mask_eq_exp_minus_1)

section \<open>The well-formed registry\<close>

subsection \<open>Alignment\<close>

lemma align_push_drop: "(x::64 word) AND NOT 7 = push_bit 3 (drop_bit 3 x)"
proof -
  have m: "(7::64 word) = mask 3" by (simp add: mask_eq_exp_minus_1)
  show ?thesis unfolding m
    by (rule bit_word_eqI) (auto simp: bit_simps)
qed

lemma unat_align: "unat ((x::64 word) AND NOT 7) = unat x div 8 * 8"
proof -
  have d: "unat (x div 8) = unat x div 8" by (simp add: unat_div)
  have "unat x div 8 * 8 \<le> unat x" by simp
  also have "unat x < 2 ^ 64" using unsigned_less [of x] by simp
  finally have "unat (x div 8) * unat (8 :: 64 word) < 2 ^ LENGTH(64)"
    by (simp add: d)
  then have "unat (x div 8 * 8) = unat (x div 8) * unat (8 :: 64 word)"
    by (rule unat_mult_lem [THEN iffD1])
  then have "unat (x div 8 * 8) = unat x div 8 * 8" by (simp add: d)
  moreover have "x AND NOT 7 = x div 8 * 8"
    unfolding align_push_drop by (simp add: push_bit_eq_mult drop_bit_eq_div)
  ultimately show ?thesis by (simp only:)
qed

lemma unat_align_up:
  assumes "unat (n::64 word) + 7 < 2 ^ 64"
  shows "unat ((n + 8 - 1) AND NOT (8 - 1)) = (unat n + 7) div 8 * 8"
proof -
  have "unat (n + 7) = unat n + 7"
    using assms by (simp add: unat_add_lem [THEN iffD1])
  moreover have "(n + 8 - 1) AND NOT (8 - 1) = (n + 7) AND NOT 7" by (simp add: add.commute)
  ultimately show ?thesis by (simp only: unat_align)
qed

lemma round8:
  fixes k :: nat
  shows "k \<le> (k + 7) div 8 * 8" and "0 < k \<Longrightarrow> 8 \<le> (k + 7) div 8 * 8"
    and "8 dvd j \<Longrightarrow> ((k + 7) div 8 * 8 \<le> j \<longleftrightarrow> k \<le> j)"
proof -
  have e: "(k + 7) div 8 * 8 + (k + 7) mod 8 = k + 7" by simp
  have r: "(k + 7) mod 8 < 8" by simp
  from e r show le: "k \<le> (k + 7) div 8 * 8" by linarith
  show "8 \<le> (k + 7) div 8 * 8" if "0 < k"
  proof -
    from that have "1 \<le> (k + 7) div 8" by (simp add: div_greater_zero_iff)
    then show ?thesis by simp
  qed
  show "(k + 7) div 8 * 8 \<le> j \<longleftrightarrow> k \<le> j" if "8 dvd j"
  proof
    assume "(k + 7) div 8 * 8 \<le> j"
    with le show "k \<le> j" by linarith
  next
    assume kj: "k \<le> j"
    from that obtain i where j: "j = 8 * i" by (elim dvdE)
    from kj have "(k + 7) div 8 \<le> (j + 7) div 8" by (intro div_le_mono) simp
    also have "(j + 7) div 8 = i" by (simp add: j)
    finally show "(k + 7) div 8 * 8 \<le> j" by (simp add: j)
  qed
qed

lemma align_up_facts:
  assumes "unat n + 7 < 2 ^ 64"
  shows "unat (align_up n) = (unat n + 7) div 8 * 8"
    and "n \<le> align_up n" and "8 dvd unat (align_up n)"
    and "0 < n \<Longrightarrow> 8 \<le> unat (align_up n)"
    and "8 dvd unat S \<Longrightarrow> (align_up n \<le> S \<longleftrightarrow> n \<le> S)"
proof -
  show u: "unat (align_up n) = (unat n + 7) div 8 * 8"
    unfolding align_up_def by (rule unat_align_up [OF assms])
  show "n \<le> align_up n" using round8(1) [of "unat n"] by (simp add: word_le_nat_alt u)
  show "8 dvd unat (align_up n)" by (simp add: u)
  show "8 \<le> unat (align_up n)" if "0 < n"
  proof -
    from that have "0 < unat n" by (simp add: word_less_nat_alt)
    from round8(2) [OF this] show ?thesis by (simp add: u)
  qed
  show "align_up n \<le> S \<longleftrightarrow> n \<le> S" if "8 dvd unat S"
    using round8(3) [OF that, of "unat n"] by (simp add: word_le_nat_alt u)
qed

lemma first_fit_rounding: "(n + 7) AND NOT 7 = align_up n"
  by (simp add: align_up_def add.commute)

lemma request_fits:
  assumes "region_ok s" and "unat n \<le> unat (region_size s)"
  shows "unat n + 7 < 2 ^ 64"
  using assms by (simp add: region_ok_def PAGE_SIZE_def)

lemma align_up_values: "align_up 10 = 16" "align_up 100 = 104" "align_up 4072 = 4072"
  "align_up 4080 = 4080"
  by (simp_all add: align_up_def)

subsection \<open>Well-formed block lists\<close>

lemma wf_blocks_mono: "wf_blocks s lo xs \<Longrightarrow> lo' \<le> lo \<Longrightarrow> wf_blocks s lo' xs"
  by (cases xs) auto

lemma wf_blocks_end:
  "wf_blocks s lo xs \<Longrightarrow> lo \<le> unat (memory_region s) + unat (region_size s)"
  by (induction xs arbitrary: lo) fastforce+

lemma wf_blocks_mem:
  "wf_blocks s lo xs \<Longrightarrow> x \<in> set xs \<Longrightarrow>
     lo \<le> unat x \<and> 8 \<le> unat (load s x) \<and> 8 dvd unat (load s x) \<and>
     unat x + 8 + unat (load s x) \<le> unat (memory_region s) + unat (region_size s)"
proof (induction xs arbitrary: lo)
  case Nil
  then show ?case by simp
next
  case (Cons y ys)
  show ?case
  proof (cases "x = y")
    case True
    with Cons.prems wf_blocks_end [of s "unat y + 8 + unat (load s y)" ys] show ?thesis by simp
  next
    case False
    with Cons.prems have "wf_blocks s (unat y + 8 + unat (load s y)) ys" and "x \<in> set ys"
      by simp_all
    from Cons.IH [OF this] Cons.prems show ?thesis by simp
  qed
qed

lemma wf_blocks_append:
  "wf_blocks s lo (ys @ b # zs) \<Longrightarrow>
     (\<forall>y\<in>set ys. lo \<le> unat y \<and> 8 \<le> unat (load s y) \<and> unat y + 8 + unat (load s y) \<le> unat b) \<and>
     lo \<le> unat b \<and> 8 \<le> unat (load s b) \<and> 8 dvd unat (load s b) \<and>
     wf_blocks s (unat b + 8 + unat (load s b)) zs"
proof (induction ys arbitrary: lo)
  case Nil
  then show ?case by simp
next
  case (Cons y ys)
  from Cons.prems have w: "wf_blocks s (unat y + 8 + unat (load s y)) (ys @ b # zs)"
    and y: "lo \<le> unat y" "8 \<le> unat (load s y)" by simp_all
  from Cons.IH [OF w] y show ?case by auto
qed

subsection \<open>List segments\<close>

lemma flist_lseg: "flist m p xs = lseg m p xs NULL"
  by (induction xs arbitrary: p) auto

lemma lseg_append:
  "lseg m p (ys @ b # zs) q = (lseg m p ys b \<and> b \<noteq> NULL \<and> lseg m (read64 m (b + 8)) zs q)"
  by (induction ys arbitrary: p) auto

lemma lseg_join: "lseg m p ys r \<Longrightarrow> lseg m r zs q \<Longrightarrow> lseg m p (ys @ zs) q"
  by (induction ys arbitrary: p) auto

lemma lseg_snoc:
  "lseg m p (ys @ [y]) q = (lseg m p ys y \<and> y \<noteq> NULL \<and> read64 m (y + 8) = q)"
  by (simp add: lseg_append)

lemma lseg_cong:
  "\<forall>x\<in>set xs. read64 m' (x + 8) = read64 m (x + 8) \<Longrightarrow> lseg m' p xs q = lseg m p xs q"
  by (induction xs arbitrary: p) auto

subsection \<open>A block of a well-formed registry\<close>

lemma wf_at:
  assumes "wf_registry s (ys @ b # zs)"
  shows "unat (memory_region s) + unat (region_size s) < 2 ^ 64"
    and "4096 \<le> unat (memory_region s)"
    and "unat (memory_region s) \<le> unat b"
    and "8 \<le> unat (load s b)"
    and "unat b + 8 + unat (load s b) \<le> unat (memory_region s) + unat (region_size s)"
    and "\<forall>y\<in>set ys. unat (memory_region s) \<le> unat y \<and> 8 \<le> unat (load s y) \<and>
           unat y + 8 + unat (load s y) \<le> unat b"
    and "\<forall>z\<in>set zs. unat b + 8 + unat (load s b) \<le> unat z \<and> 8 \<le> unat (load s z) \<and>
           unat z + 8 + unat (load s z) \<le> unat (memory_region s) + unat (region_size s)"
    and "lseg (mem s) (free_list s) ys b" and "b \<noteq> NULL"
    and "lseg (mem s) (load s (b + 8)) zs NULL"
    and "8 dvd unat (load s b)"
proof -
  from assms have ok: "region_ok s" and reg: "registry s (ys @ b # zs)"
    and wf: "wf_blocks s (unat (memory_region s)) (ys @ b # zs)"
    by (simp_all add: wf_registry_def)
  from ok show "unat (memory_region s) + unat (region_size s) < 2 ^ 64"
    and "4096 \<le> unat (memory_region s)"
    by (simp_all add: region_ok_def PAGE_SIZE_def)
  from wf_blocks_append [OF wf]
  have ys: "\<forall>y\<in>set ys. unat (memory_region s) \<le> unat y \<and> 8 \<le> unat (load s y) \<and>
           unat y + 8 + unat (load s y) \<le> unat b"
    and b: "unat (memory_region s) \<le> unat b" "8 \<le> unat (load s b)"
    and zs: "wf_blocks s (unat b + 8 + unat (load s b)) zs"
    and dv: "8 dvd unat (load s b)"
    by blast+
  from ys b show "unat (memory_region s) \<le> unat b" "8 \<le> unat (load s b)"
    "\<forall>y\<in>set ys. unat (memory_region s) \<le> unat y \<and> 8 \<le> unat (load s y) \<and>
           unat y + 8 + unat (load s y) \<le> unat b"
    by blast+
  from wf_blocks_end [OF zs]
  show "unat b + 8 + unat (load s b) \<le> unat (memory_region s) + unat (region_size s)" .
  from wf_blocks_mem [OF zs]
  show "\<forall>z\<in>set zs. unat b + 8 + unat (load s b) \<le> unat z \<and> 8 \<le> unat (load s z) \<and>
           unat z + 8 + unat (load s z) \<le> unat (memory_region s) + unat (region_size s)"
    by blast
  from reg show "lseg (mem s) (free_list s) ys b" and "b \<noteq> NULL"
    and "lseg (mem s) (load s (b + 8)) zs NULL"
    by (simp_all add: registry_def flist_lseg lseg_append load_def)
  from dv show "8 dvd unat (load s b)" .
qed

lemma wf_mem:
  assumes "wf_registry s xs" and "x \<in> set xs"
  shows "mapped s x" and "mapped s (x + 8)" and "unat (x + 8) = unat x + 8"
    and "unat (load s x) < 2 ^ 64 - 4096"
proof -
  from assms(2) obtain ys zs where xs: "xs = ys @ x # zs"
    by (auto simp: in_set_conv_decomp)
  note f = wf_at [OF assms(1) [unfolded xs]]
  from f(1,5) have lt: "unat x + 8 < 2 ^ 64" by simp
  then show u: "unat (x + 8) = unat x + 8" by (rule unat_plus8)
  from f(3,5) show "mapped s x" by (simp add: mapped_def)
  from f(1-5) show "mapped s (x + 8)" by (simp add: mapped_def u)
  from f(1-5) show "unat (load s x) < 2 ^ 64 - 4096" by simp
qed

section \<open>Best fit and first fit on a well-formed registry\<close>

subsection \<open>The searches on a well-formed registry\<close>

lemma best_fit_scan_pick:
  assumes "flist (mem s) cur xs" and "\<forall>x\<in>set xs. mapped s x \<and> mapped s (x + 8)"
  shows "best_fit_scan s a pp cur bb bpp sd = Some (Inr (best_pick (load s) a pp xs bb bpp sd))"
  using assms
proof (induction xs arbitrary: cur pp bb bpp sd)
  case Nil
  then show ?case by (subst best_fit_scan.simps) simp
next
  case (Cons x xs)
  from Cons.prems have cur: "cur = x" "x \<noteq> NULL"
    and fl: "flist (mem s) (load s (x + 8)) xs"
    and mp: "mapped s x" "mapped s (x + 8)"
    and rest: "\<forall>x\<in>set xs. mapped s x \<and> mapped s (x + 8)"
    by (simp_all add: load_def)
  show ?case
    by (subst best_fit_scan.simps) (simp add: cur mp Let_def Cons.IH [OF fl rest])
qed

lemma best_pick_none:
  "\<forall>x\<in>set xs. \<not> (a \<le> f x \<and> f x - a < sd) \<Longrightarrow> best_pick f a pp xs bb bpp sd = (bb, bpp, sd)"
  by (induction xs arbitrary: pp) auto

lemma best_pick_some:
  assumes "\<exists>x\<in>set xs. a \<le> f x \<and> f x - a < sd"
  shows "\<exists>ys b zs. xs = ys @ b # zs \<and> a \<le> f b \<and> f b - a < sd \<and>
           (\<forall>y\<in>set ys. a \<le> f y \<longrightarrow> f b - a < f y - a) \<and>
           (\<forall>z\<in>set zs. a \<le> f z \<longrightarrow> f b - a \<le> f z - a) \<and>
           best_pick f a pp xs bb bpp sd =
             (b, (if ys = [] then pp else Field (last ys + 8)), f b - a)"
  using assms
proof (induction xs arbitrary: pp bb bpp sd)
  case Nil
  then show ?case by simp
next
  case (Cons x xs)
  show ?case
  proof (cases "a \<le> f x \<and> f x - a < sd")
    case better: True
    show ?thesis
    proof (cases "\<exists>y\<in>set xs. a \<le> f y \<and> f y - a < f x - a")
      case True
      from Cons.IH [OF this, of "Field (x + 8)" x pp] obtain ys b zs where
        d: "xs = ys @ b # zs" "a \<le> f b" "f b - a < f x - a"
          "\<forall>y\<in>set ys. a \<le> f y \<longrightarrow> f b - a < f y - a"
          "\<forall>z\<in>set zs. a \<le> f z \<longrightarrow> f b - a \<le> f z - a"
          "best_pick f a (Field (x + 8)) xs x pp (f x - a) =
             (b, (if ys = [] then Field (x + 8) else Field (last ys + 8)), f b - a)"
        by blast
      from d better have "x # xs = (x # ys) @ b # zs \<and> a \<le> f b \<and> f b - a < sd \<and>
           (\<forall>y\<in>set (x # ys). a \<le> f y \<longrightarrow> f b - a < f y - a) \<and>
           (\<forall>z\<in>set zs. a \<le> f z \<longrightarrow> f b - a \<le> f z - a) \<and>
           best_pick f a pp (x # xs) bb bpp sd =
             (b, (if x # ys = [] then pp else Field (last (x # ys) + 8)), f b - a)"
        by auto
      then show ?thesis by blast
    next
      case False
      then have "best_pick f a (Field (x + 8)) xs x pp (f x - a) = (x, pp, f x - a)"
        by (intro best_pick_none) simp
      with better False have "x # xs = [] @ x # xs \<and> a \<le> f x \<and> f x - a < sd \<and>
           (\<forall>y\<in>set []. a \<le> f y \<longrightarrow> f x - a < f y - a) \<and>
           (\<forall>z\<in>set xs. a \<le> f z \<longrightarrow> f x - a \<le> f z - a) \<and>
           best_pick f a pp (x # xs) bb bpp sd =
             (x, (if [] = ([] :: addr list) then pp else Field (last [] + 8)), f x - a)"
        by (auto simp: not_less)
      then show ?thesis by blast
    qed
  next
    case worse: False
    with Cons.prems have "\<exists>y\<in>set xs. a \<le> f y \<and> f y - a < sd" by auto
    from Cons.IH [OF this, of "Field (x + 8)" bb bpp] obtain ys b zs where
      d: "xs = ys @ b # zs" "a \<le> f b" "f b - a < sd"
        "\<forall>y\<in>set ys. a \<le> f y \<longrightarrow> f b - a < f y - a"
        "\<forall>z\<in>set zs. a \<le> f z \<longrightarrow> f b - a \<le> f z - a"
        "best_pick f a (Field (x + 8)) xs bb bpp sd =
           (b, (if ys = [] then Field (x + 8) else Field (last ys + 8)), f b - a)"
      by blast
    from d worse have "x # xs = (x # ys) @ b # zs \<and> a \<le> f b \<and> f b - a < sd \<and>
         (\<forall>y\<in>set (x # ys). a \<le> f y \<longrightarrow> f b - a < f y - a) \<and>
         (\<forall>z\<in>set zs. a \<le> f z \<longrightarrow> f b - a \<le> f z - a) \<and>
         best_pick f a pp (x # xs) bb bpp sd =
           (b, (if x # ys = [] then pp else Field (last (x # ys) + 8)), f b - a)"
      by (auto simp: not_less)
    then show ?thesis by blast
  qed
qed

lemma first_fit_scan_pick:
  assumes "flist (mem s) cur xs" and "\<forall>x\<in>set xs. mapped s x \<and> mapped s (x + 8)"
  shows "first_fit_scan s a prev cur = Some (Inr (first_pick (load s) a prev xs))"
  using assms
proof (induction xs arbitrary: cur prev)
  case Nil
  then show ?case by (subst first_fit_scan.simps) simp
next
  case (Cons x xs)
  from Cons.prems have cur: "cur = x" "x \<noteq> NULL"
    and fl: "flist (mem s) (load s (x + 8)) xs"
    and mp: "mapped s x" "mapped s (x + 8)"
    and rest: "\<forall>x\<in>set xs. mapped s x \<and> mapped s (x + 8)"
    by (simp_all add: load_def)
  show ?case
    by (subst first_fit_scan.simps) (simp add: cur mp Cons.IH [OF fl rest])
qed

lemma first_pick_none:
  "first_pick f a prev xs = None \<longleftrightarrow> (\<forall>x\<in>set xs. f x < a)"
  by (induction xs arbitrary: prev) (auto simp: not_le)

lemma first_pick_some:
  "first_pick f a prev xs = Some (p, b) \<Longrightarrow>
     \<exists>ys zs. xs = ys @ b # zs \<and> a \<le> f b \<and> (\<forall>y\<in>set ys. f y < a) \<and>
       p = (if ys = [] then prev else last ys)"
proof (induction xs arbitrary: prev)
  case Nil
  then show ?case by simp
next
  case (Cons x xs)
  show ?case
  proof (cases "a \<le> f x")
    case True
    with Cons.prems have "x # xs = [] @ b # xs \<and> a \<le> f b \<and> (\<forall>y\<in>set []. f y < a) \<and>
        p = (if [] = ([] :: addr list) then prev else last [])"
      by simp
    then show ?thesis by blast
  next
    case False
    with Cons.prems have "first_pick f a x xs = Some (p, b)" by simp
    from Cons.IH [OF this] obtain ys zs where
      "xs = ys @ b # zs" "a \<le> f b" "\<forall>y\<in>set ys. f y < a" "p = (if ys = [] then x else last ys)"
      by blast
    with False have "x # xs = (x # ys) @ b # zs \<and> a \<le> f b \<and> (\<forall>y\<in>set (x # ys). f y < a) \<and>
        p = (if x # ys = [] then prev else last (x # ys))"
      by (auto simp: not_le)
    then show ?thesis by blast
  qed
qed

subsection \<open>Best fit takes a block\<close>

lemma best_fit_take_split:
  assumes wf: "wf_registry s (ys @ b # zs)" and ab: "a \<le> load s b" and sp: "16 < load s b - a"
  shows "\<exists>s'. best_fit_take s a b (if ys = [] then Head else Field (last ys + 8)) = Inr (b + 8, s') \<and>
           load s' b = a \<and> load s' (b + 8 + a) = load s b - a - 8 \<and>
           (8 \<le> unat a \<longrightarrow> registry s' (ys @ (b + 8 + a) # zs))"
proof -
  note f = wf_at [OF wf]
  define S where "S = load s b"
  define new where "new = b + 8 + a"
  have da: "unat (S - a) = unat S - unat a" and ale: "unat a \<le> unat S"
    using ab by (simp_all add: S_def unat_minus_le word_le_nat_alt)
  from sp have gap: "unat a + 16 < unat S"
    using da by (simp add: S_def word_less_nat_alt)
  have ub8: "unat (b + 8) = unat b + 8"
    using f(1,5) by (intro unat_plus8) simp
  have unew: "unat new = unat b + 8 + unat a"
    unfolding new_def using f(1,5) gap ub8 by (subst unat_plus) (simp_all add: S_def)
  have unew8: "unat (new + 8) = unat b + 16 + unat a"
    using f(1,5) gap unew by (subst unat_plus8) (simp_all add: S_def)
  have mp: "mapped s b" "mapped s (b + 8)" "mapped s new" "mapped s (new + 8)"
    using f(1-5) gap by (simp_all add: mapped_def ub8 unew unew8 S_def)
  define s1 where "s1 = store s new (S - a - 8)"
  define s2 where "s2 = store s1 (new + 8) (load s1 (b + 8))"
  define s3 where "s3 = store s2 b a"
  have ms: "mapped s1 q = mapped s q" "mapped s2 q = mapped s q" "mapped s3 q = mapped s q" for q
    by (simp_all add: s1_def s2_def s3_def)
  have h3: "load s3 b = a" by (simp add: s3_def)
  have n3: "load s3 new = S - a - 8"
    using f(1,5) gap
    by (simp add: s3_def s2_def s1_def load_store_other unew unew8 S_def)
  have l3: "8 \<le> unat a \<Longrightarrow> load s3 (new + 8) = load s (b + 8)"
    using f(1,5) gap
    by (simp add: s3_def s2_def s1_def load_store_other unew unew8 ub8 S_def)
  have z3: "load s3 (z + 8) = load s (z + 8)" if "z \<in> set zs" for z
  proof -
    from f(7) that have z: "unat b + 8 + unat S \<le> unat z" "8 \<le> unat (load s z)"
      "unat z + 8 + unat (load s z) \<le> unat (memory_region s) + unat (region_size s)"
      by (simp_all add: S_def)
    with f(1) have uz: "unat (z + 8) = unat z + 8" by (intro unat_plus8) simp
    from z f(1) gap show ?thesis
      by (simp add: s3_def s2_def s1_def load_store_other unew unew8 uz)
  qed
  have y3: "load s3 q = load s q" if "unat q + 8 \<le> unat b" for q
    using that f(1,5) gap
    by (simp add: s3_def s2_def s1_def load_store_other unew unew8 S_def)
  have new0: "new \<noteq> NULL" using unew f(2,3) by auto
  show ?thesis
  proof (cases "ys = []")
    case True
    have take: "best_fit_take s a b Head = Inr (b + 8, s3\<lparr>free_list := new\<rparr>)"
      using sp mp
      by (simp add: ms best_fit_take_def load_c_def store_c_def seq_def store_link_def Let_def
          S_def [symmetric] new_def [symmetric] s1_def [symmetric] s2_def [symmetric] s3_def [symmetric])
    have "registry (s3\<lparr>free_list := new\<rparr>) (new # zs)" if "8 \<le> unat a"
    proof -
      have "lseg (mem s3) (load s (b + 8)) zs NULL = lseg (mem s) (load s (b + 8)) zs NULL"
        by (rule lseg_cong) (use z3 in \<open>simp add: load_def\<close>)
      with f(10) l3 [OF that] new0 show ?thesis
        by (simp add: registry_def flist_lseg load_def)
    qed
    with take True h3 n3 show ?thesis
      by (auto simp: new_def S_def)
  next
    case False
    then obtain ys' yl where ys: "ys = ys' @ [yl]"
      by (cases ys rule: rev_cases) auto
    from f(6) have yl: "unat (memory_region s) \<le> unat yl" "8 \<le> unat (load s yl)"
      "unat yl + 8 + unat (load s yl) \<le> unat b"
      by (simp_all add: ys)
    have uyl: "unat (yl + 8) = unat yl + 8"
      using yl f(1,5) by (intro unat_plus8) simp
    have myl: "mapped s (yl + 8)"
      using yl f(1,5) by (simp add: mapped_def uyl)
    define s4 where "s4 = store s3 (yl + 8) new"
    have take: "best_fit_take s a b (Field (last ys + 8)) = Inr (b + 8, s4)"
      using sp mp myl
      by (simp add: ms best_fit_take_def load_c_def store_c_def seq_def store_link_def Let_def ys
          S_def [symmetric] new_def [symmetric] s1_def [symmetric] s2_def [symmetric]
          s3_def [symmetric] s4_def [symmetric])
    have fr: "load s4 q = load s3 q" if "unat b \<le> unat q" "unat q + 8 \<le> 2 ^ 64" for q
      using that yl f(1,5) by (simp add: s4_def load_store_other uyl)
    have h4: "load s4 b = a" using fr [of b] f(1,5) h3 by simp
    have n4: "load s4 new = S - a - 8"
      using fr [of new] f(1,5) gap n3 unew by (simp add: S_def)
    have l4: "load s4 (new + 8) = load s (b + 8)" if "8 \<le> unat a"
      using fr [of "new + 8"] f(1,5) gap l3 [OF that] unew8 by (simp add: S_def)
    have z4: "load s4 (z + 8) = load s (z + 8)" if "z \<in> set zs" for z
    proof -
      from f(7) that have z: "unat b + 8 + unat S \<le> unat z" "8 \<le> unat (load s z)"
        "unat z + 8 + unat (load s z) \<le> unat (memory_region s) + unat (region_size s)"
        by (simp_all add: S_def)
      with f(1) have uz: "unat (z + 8) = unat z + 8" by (intro unat_plus8) simp
      from fr [of "z + 8"] z f(1) uz z3 [OF that] show ?thesis by simp
    qed
    have y4: "load s4 (y + 8) = load s (y + 8)" if "y \<in> set ys'" for y
    proof -
      from wf have w: "wf_blocks s (unat (memory_region s)) (ys' @ yl # b # zs)"
        by (simp add: wf_registry_def ys)
      from wf_blocks_append [OF w] that
      have y: "unat y + 8 + unat (load s y) \<le> unat yl" "8 \<le> unat (load s y)" by blast+
      with yl f(1,5) have uy: "unat (y + 8) = unat y + 8" by (intro unat_plus8) simp
      from y yl f(1,5) have "load s4 (y + 8) = load s3 (y + 8)"
        by (simp add: s4_def load_store_other uyl uy)
      also from y yl have "\<dots> = load s (y + 8)" by (intro y3) (simp add: uy)
      finally show ?thesis .
    qed
    have "registry s4 (ys @ new # zs)" if "8 \<le> unat a"
    proof -
      have fl: "free_list s4 = free_list s"
        by (simp add: s4_def s3_def s2_def s1_def)
      from f(8) have seg: "lseg (mem s) (free_list s) ys' yl" and yl0: "yl \<noteq> NULL"
        by (simp_all add: ys lseg_snoc)
      have "lseg (mem s4) (free_list s) ys' yl = lseg (mem s) (free_list s) ys' yl"
        by (rule lseg_cong) (use y4 in \<open>simp add: load_def\<close>)
      with seg have a1: "lseg (mem s4) (free_list s4) ys' yl" by (simp add: fl)
      have a2: "read64 (mem s4) (yl + 8) = new"
        using load_store_same [of s3 "yl + 8" new] by (simp add: s4_def load_def)
      have "lseg (mem s4) (load s (b + 8)) zs NULL = lseg (mem s) (load s (b + 8)) zs NULL"
        by (rule lseg_cong) (use z4 in \<open>simp add: load_def\<close>)
      with f(10) l4 [OF that] have a3: "lseg (mem s4) (read64 (mem s4) (new + 8)) zs NULL"
        by (simp add: load_def)
      from a1 a2 a3 yl0 new0 show ?thesis
        by (simp add: registry_def flist_lseg ys lseg_append)
    qed
    with take False h4 n4 show ?thesis
      by (auto simp: new_def S_def)
  qed
qed

lemma best_fit_take_whole:
  assumes wf: "wf_registry s (ys @ b # zs)" and ns: "\<not> 16 < load s b - a"
  shows "\<exists>s'. best_fit_take s a b (if ys = [] then Head else Field (last ys + 8)) = Inr (b + 8, s') \<and>
           load s' b = load s b \<and> registry s' (ys @ zs)"
proof -
  note f = wf_at [OF wf]
  have ub8: "unat (b + 8) = unat b + 8"
    using f(1,5) by (intro unat_plus8) simp
  have mp: "mapped s b" "mapped s (b + 8)"
    using f(1-5) by (simp_all add: mapped_def ub8)
  show ?thesis
  proof (cases "ys = []")
    case True
    have take: "best_fit_take s a b Head = Inr (b + 8, s\<lparr>free_list := load s (b + 8)\<rparr>)"
      using ns mp
      by (simp add: best_fit_take_def load_c_def store_c_def seq_def store_link_def Let_def)
    from f(10) have "registry (s\<lparr>free_list := load s (b + 8)\<rparr>) zs"
      by (simp add: registry_def flist_lseg)
    with take True show ?thesis by auto
  next
    case False
    then obtain ys' yl where ys: "ys = ys' @ [yl]"
      by (cases ys rule: rev_cases) auto
    from f(6) have yl: "unat (memory_region s) \<le> unat yl" "8 \<le> unat (load s yl)"
      "unat yl + 8 + unat (load s yl) \<le> unat b"
      by (simp_all add: ys)
    have uyl: "unat (yl + 8) = unat yl + 8"
      using yl f(1,5) by (intro unat_plus8) simp
    have myl: "mapped s (yl + 8)"
      using yl f(1,5) by (simp add: mapped_def uyl)
    define s4 where "s4 = store s (yl + 8) (load s (b + 8))"
    have take: "best_fit_take s a b (Field (last ys + 8)) = Inr (b + 8, s4)"
      using ns mp myl
      by (simp add: best_fit_take_def load_c_def store_c_def seq_def store_link_def Let_def ys
          s4_def [symmetric])
    have fr: "load s4 q = load s q" if "unat b \<le> unat q" "unat q + 8 \<le> 2 ^ 64" for q
      using that yl f(1,5) by (simp add: s4_def load_store_other uyl)
    have h4: "load s4 b = load s b" using fr [of b] f(1,5) by simp
    have z4: "load s4 (z + 8) = load s (z + 8)" if "z \<in> set zs" for z
    proof -
      from f(7) that have z: "unat b + 8 + unat (load s b) \<le> unat z" "8 \<le> unat (load s z)"
        "unat z + 8 + unat (load s z) \<le> unat (memory_region s) + unat (region_size s)"
        by simp_all
      with f(1) have uz: "unat (z + 8) = unat z + 8" by (intro unat_plus8) simp
      from fr [of "z + 8"] z f(1) uz show ?thesis by simp
    qed
    have y4: "load s4 (y + 8) = load s (y + 8)" if "y \<in> set ys'" for y
    proof -
      from wf have w: "wf_blocks s (unat (memory_region s)) (ys' @ yl # b # zs)"
        by (simp add: wf_registry_def ys)
      from wf_blocks_append [OF w] that
      have y: "unat y + 8 + unat (load s y) \<le> unat yl" "8 \<le> unat (load s y)" by blast+
      with yl f(1,5) have uy: "unat (y + 8) = unat y + 8" by (intro unat_plus8) simp
      from y yl f(1,5) show "load s4 (y + 8) = load s (y + 8)"
        by (simp add: s4_def load_store_other uyl uy)
    qed
    have "registry s4 (ys @ zs)"
    proof -
      have fl: "free_list s4 = free_list s" by (simp add: s4_def)
      from f(8) have seg: "lseg (mem s) (free_list s) ys' yl" and yl0: "yl \<noteq> NULL"
        by (simp_all add: ys lseg_snoc)
      have "lseg (mem s4) (free_list s) ys' yl = lseg (mem s) (free_list s) ys' yl"
        by (rule lseg_cong) (use y4 in \<open>simp add: load_def\<close>)
      with seg have a1: "lseg (mem s4) (free_list s4) ys' yl" by (simp add: fl)
      have a2: "read64 (mem s4) (yl + 8) = load s (b + 8)"
        using load_store_same [of s "yl + 8" "load s (b + 8)"] by (simp add: s4_def load_def)
      have "lseg (mem s4) (load s (b + 8)) zs NULL = lseg (mem s) (load s (b + 8)) zs NULL"
        by (rule lseg_cong) (use z4 in \<open>simp add: load_def\<close>)
      with f(10) have a3: "lseg (mem s4) (load s (b + 8)) zs NULL" by simp
      from a1 a2 yl0 have "lseg (mem s4) (free_list s4) ys (load s (b + 8))"
        by (simp add: ys lseg_snoc)
      from lseg_join [OF this a3] show ?thesis
        by (simp add: registry_def flist_lseg)
    qed
    with take False h4 show ?thesis by auto
  qed
qed

subsection \<open>First fit takes a block\<close>

lemma first_fit_take_header:
  assumes wf: "wf_registry s (ys @ b # zs)" and ab: "a \<le> load s b" and al: "8 dvd unat a"
  shows "\<exists>s'. first_fit_take s a (if ys = [] then NULL else last ys) b = Inr (b + 8, s') \<and>
           load s' b = (if unat a + 8 < unat (load s b) then a else load s b)"
proof -
  note f = wf_at [OF wf]
  define S where "S = load s b"
  define new where "new = b + 8 + a"
  have ale: "unat a \<le> unat S"
    using ab by (simp add: S_def word_le_nat_alt)
  have ua8: "unat (a + 8) = unat a + 8"
    using ale f(1,5) by (intro unat_plus8) (simp add: S_def)
  have cond: "a + 8 < S \<longleftrightarrow> unat a + 8 < unat S"
    by (simp add: word_less_nat_alt ua8)
  have ub8: "unat (b + 8) = unat b + 8"
    using f(1,5) by (intro unat_plus8) simp
  have mp: "mapped s b" "mapped s (b + 8)"
    using f(1-5) by (simp_all add: mapped_def ub8)
  have prev: "unat (yl + 1) = unat yl + 1 \<and> mapped s (yl + 1) \<and> yl \<noteq> NULL \<and>
      unat yl + 16 \<le> unat b"
    if "ys = ys' @ [yl]" for ys' yl
  proof -
    from f(6) that have yl: "unat (memory_region s) \<le> unat yl" "8 \<le> unat (load s yl)"
      "unat yl + 8 + unat (load s yl) \<le> unat b"
      by simp_all
    have u: "unat (yl + 1) = unat yl + 1"
      using yl f(1,5) unat_plus [of yl 1] by simp
    moreover have "mapped s (yl + 1)" using yl f(1,5) by (simp add: mapped_def u)
    moreover have "yl \<noteq> NULL" using yl f(2) by auto
    ultimately show ?thesis using yl by simp
  qed
  show ?thesis
  proof (cases "unat a + 8 < unat S")
    case split: True
    from split al f(11) have gap: "unat a + 16 \<le> unat S"
      unfolding S_def by presburger
    have unew: "unat new = unat b + 8 + unat a"
      unfolding new_def using f(1,5) gap ub8 by (subst unat_plus) (simp_all add: S_def)
    have unew8: "unat (new + 8) = unat b + 16 + unat a"
      using f(1,5) gap unew by (subst unat_plus8) (simp_all add: S_def)
    have mn: "mapped s new" "mapped s (new + 8)"
      using f(1-5) gap by (simp_all add: mapped_def unew unew8 S_def)
    define s1 where "s1 = store s new (S - a - 8)"
    define s2 where "s2 = store s1 (new + 8) (load s1 (b + 8))"
    define s3 where "s3 = store s2 b a"
    have ms: "mapped s1 q = mapped s q" "mapped s2 q = mapped s q" "mapped s3 q = mapped s q" for q
      by (simp_all add: s1_def s2_def s3_def)
    have h3: "load s3 b = a" by (simp add: s3_def)
    show ?thesis
    proof (cases "ys = []")
      case True
      have "first_fit_take s a NULL b = Inr (b + 8, s3\<lparr>free_list := load s3 (b + 8)\<rparr>)"
        using split mp mn cond
        by (simp add: ms first_fit_take_def load_c_def store_c_def seq_def Let_def
            S_def [symmetric] new_def [symmetric] s1_def [symmetric] s2_def [symmetric]
            s3_def [symmetric])
      with True h3 split show ?thesis by (auto simp: S_def)
    next
      case False
      then obtain ys' yl where ys: "ys = ys' @ [yl]"
        by (cases ys rule: rev_cases) auto
      note p = prev [OF ys]
      define s4 where "s4 = store s3 (yl + 1) new"
      define s5 where "s5 = store s4 (yl + 1) (load s4 (b + 8))"
      have ms4: "mapped s4 q = mapped s q" for q by (simp add: s4_def ms)
      have "first_fit_take s a (last ys) b = Inr (b + 8, s5)"
        using split mp mn cond p
        by (simp add: ms ms4 first_fit_take_def load_c_def store_c_def seq_def Let_def ys
            S_def [symmetric] new_def [symmetric] s1_def [symmetric] s2_def [symmetric]
            s3_def [symmetric] s4_def [symmetric] s5_def [symmetric])
      moreover have "load s5 b = a"
        using p f(1,5) h3 by (simp add: s5_def s4_def load_store_other)
      ultimately show ?thesis using False split by (auto simp: S_def)
    qed
  next
    case whole: False
    show ?thesis
    proof (cases "ys = []")
      case True
      have "first_fit_take s a NULL b = Inr (b + 8, s\<lparr>free_list := load s (b + 8)\<rparr>)"
        using whole mp cond
        by (simp add: first_fit_take_def load_c_def store_c_def seq_def Let_def S_def [symmetric])
      with True whole show ?thesis by (auto simp: S_def)
    next
      case False
      then obtain ys' yl where ys: "ys = ys' @ [yl]"
        by (cases ys rule: rev_cases) auto
      note p = prev [OF ys]
      define s5 where "s5 = store s (yl + 1) (load s (b + 8))"
      have "first_fit_take s a (last ys) b = Inr (b + 8, s5)"
        using whole mp cond p
        by (simp add: first_fit_take_def load_c_def store_c_def seq_def Let_def ys
            S_def [symmetric] s5_def [symmetric])
      moreover have "load s5 b = load s b"
        using p f(1,5) by (simp add: s5_def load_store_other)
      ultimately show ?thesis using False whole by (auto simp: S_def)
    qed
  qed
qed

subsection \<open>Best fit on a well-formed registry\<close>

lemma best_fit_run:
  fixes n :: "64 word"
  assumes wf: "wf_registry s xs"
  defines "a \<equiv> align_up n"
  shows "((\<forall>x\<in>set xs. load s x < a) \<and> best_fit_algorithm n s = Some (Inr (NULL, s))) \<or>
    (\<exists>ys b zs s'. xs = ys @ b # zs \<and> a \<le> load s b \<and>
       (\<forall>y\<in>set ys. a \<le> load s y \<longrightarrow> load s b - a < load s y - a) \<and>
       (\<forall>z\<in>set zs. a \<le> load s z \<longrightarrow> load s b - a \<le> load s z - a) \<and>
       best_fit_algorithm n s = Some (Inr (b + 8, s')) \<and>
       load s' b = (if 16 < load s b - a then a else load s b) \<and>
       (16 < load s b - a \<longrightarrow> load s' (b + 8 + a) = load s b - a - 8 \<and>
          (8 \<le> unat a \<longrightarrow> registry s' (ys @ (b + 8 + a) # zs))) \<and>
       (\<not> 16 < load s b - a \<longrightarrow> registry s' (ys @ zs)))"
proof -
  from wf have fl: "flist (mem s) (free_list s) xs"
    by (simp add: wf_registry_def registry_def)
  have mp: "\<forall>x\<in>set xs. mapped s x \<and> mapped s (x + 8)"
    using wf_mem [OF wf] by blast
  have scan: "best_fit_scan s a Head (free_list s) NULL (Field NULL) SIZE_MAX =
      Some (Inr (best_pick (load s) a Head xs NULL (Field NULL) SIZE_MAX))"
    by (rule best_fit_scan_pick [OF fl mp])
  have alg: "best_fit_algorithm n s =
      (case best_pick (load s) a Head xs NULL (Field NULL) SIZE_MAX of
         (best_block, best_prev_pointer, smallest_diff) \<Rightarrow>
           if best_block \<noteq> NULL then Some (best_fit_take s a best_block best_prev_pointer)
           else Some (Inr (NULL, s)))"
    unfolding best_fit_algorithm_def Let_def align_up_def [symmetric] a_def [symmetric] scan
    by (simp add: after_def)
  have small: "load s x - a < SIZE_MAX" if "x \<in> set xs" "a \<le> load s x" for x
  proof -
    from that(2) have "unat (load s x - a) \<le> unat (load s x)"
      by (simp add: unat_minus_le)
    moreover have "unat SIZE_MAX = 2 ^ 64 - 1"
      by (simp add: SIZE_MAX_def unsigned_minus_1_eq_mask mask_eq_exp_minus_1)
    ultimately show ?thesis
      using wf_mem(4) [OF wf that(1)] by (simp add: word_less_nat_alt)
  qed
  show ?thesis
  proof (cases "\<exists>x\<in>set xs. a \<le> load s x")
    case False
    then have "\<forall>x\<in>set xs. \<not> (a \<le> load s x \<and> load s x - a < SIZE_MAX)" by blast
    from best_pick_none [OF this] False show ?thesis
      by (auto simp: alg not_le)
  next
    case True
    with small have "\<exists>x\<in>set xs. a \<le> load s x \<and> load s x - a < SIZE_MAX" by blast
    from best_pick_some [OF this, of Head NULL "Field NULL"] obtain ys b zs where
      d: "xs = ys @ b # zs" "a \<le> load s b"
        "\<forall>y\<in>set ys. a \<le> load s y \<longrightarrow> load s b - a < load s y - a"
        "\<forall>z\<in>set zs. a \<le> load s z \<longrightarrow> load s b - a \<le> load s z - a"
        "best_pick (load s) a Head xs NULL (Field NULL) SIZE_MAX =
           (b, (if ys = [] then Head else Field (last ys + 8)), load s b - a)"
      by blast
    note wf' = wf [unfolded d(1)]
    from wf_at(9) [OF wf'] have b0: "b \<noteq> NULL" .
    have run: "best_fit_algorithm n s =
        Some (best_fit_take s a b (if ys = [] then Head else Field (last ys + 8)))"
      using b0 by (simp add: alg d(5))
    show ?thesis
    proof (cases "16 < load s b - a")
      case True
      from best_fit_take_split [OF wf' d(2) True] obtain s' where
        "best_fit_take s a b (if ys = [] then Head else Field (last ys + 8)) = Inr (b + 8, s')"
        "load s' b = a" "load s' (b + 8 + a) = load s b - a - 8"
        "8 \<le> unat a \<longrightarrow> registry s' (ys @ (b + 8 + a) # zs)"
        by blast
      with d True run show ?thesis by auto
    next
      case False
      from best_fit_take_whole [OF wf' False] obtain s' where
        "best_fit_take s a b (if ys = [] then Head else Field (last ys + 8)) = Inr (b + 8, s')"
        "load s' b = load s b" "registry s' (ys @ zs)"
        by blast
      with d False run show ?thesis by auto
    qed
  qed
qed

subsection \<open>First fit on a well-formed registry\<close>

lemma first_fit_run:
  fixes n :: "64 word"
  assumes wf: "wf_registry s xs" and nw: "unat n + 7 < 2 ^ 64"
  defines "a \<equiv> align_up n"
  shows "((\<forall>x\<in>set xs. load s x < a) \<and> first_fit_algorithm n s = Some (Inr (NULL, s))) \<or>
    (\<exists>ys b zs s'. xs = ys @ b # zs \<and> a \<le> load s b \<and> (\<forall>y\<in>set ys. load s y < a) \<and>
       first_fit_algorithm n s = Some (Inr (b + 8, s')) \<and>
       load s' b = (if unat a + 8 < unat (load s b) then a else load s b))"
proof -
  from wf have fl: "flist (mem s) (free_list s) xs"
    by (simp add: wf_registry_def registry_def)
  have mp: "\<forall>x\<in>set xs. mapped s x \<and> mapped s (x + 8)"
    using wf_mem [OF wf] by blast
  have scan: "first_fit_scan s a NULL (free_list s) = Some (Inr (first_pick (load s) a NULL xs))"
    by (rule first_fit_scan_pick [OF fl mp])
  have alg: "first_fit_algorithm n s =
      (case first_pick (load s) a NULL xs of
         None \<Rightarrow> Some (Inr (NULL, s))
       | Some (prev_block, current_block) \<Rightarrow> Some (first_fit_take s a prev_block current_block))"
    unfolding first_fit_algorithm_def Let_def first_fit_rounding a_def [symmetric] scan
    by (simp add: after_def)
  show ?thesis
  proof (cases "first_pick (load s) a NULL xs")
    case None
    then have "\<forall>x\<in>set xs. load s x < a" by (simp add: first_pick_none)
    moreover have "first_fit_algorithm n s = Some (Inr (NULL, s))" by (simp add: alg None)
    ultimately show ?thesis by blast
  next
    case (Some r)
    obtain p b where r: "r = (p, b)" by (cases r)
    from first_pick_some [OF Some [unfolded r]] obtain ys zs where
      d: "xs = ys @ b # zs" "a \<le> load s b" "\<forall>y\<in>set ys. load s y < a"
        "p = (if ys = [] then NULL else last ys)"
      by blast
    from first_fit_take_header [OF wf [unfolded d(1)] d(2), folded d(4)]
      align_up_facts(3) [OF nw]
    obtain s' where "first_fit_take s a p b = Inr (b + 8, s')"
      "load s' b = (if unat a + 8 < unat (load s b) then a else load s b)"
      by (auto simp: a_def)
    with d Some r show ?thesis by (auto simp: alg)
  qed
qed

section \<open>Release of the null pointer\<close>

text \<open>
  C10. \<^verbatim>\<open>ufree\<close> returns the error code exactly for the null pointer: for the null
  pointer it returns \<open>UMEM_ERROR\<close> and the state it was given, with memory, the list head
  and the next-fit cursor as they were; whenever it returns for another pointer, it
  returns 0.
\<close>

theorem ufree_error_iff_null:
  "ufree NULL s = Some (Inr (UMEM_ERROR, s)) \<and>
   (\<forall>ptr rc s'. ufree ptr s = Some (Inr (rc, s')) \<longrightarrow> (rc = UMEM_ERROR \<longleftrightarrow> ptr = NULL))"
proof (intro conjI allI impI)
  show "ufree NULL s = Some (Inr (UMEM_ERROR, s))"
    by (simp add: ufree_def)
next
  fix ptr rc s'
  assume r: "ufree ptr s = Some (Inr (rc, s'))"
  show "rc = UMEM_ERROR \<longleftrightarrow> ptr = NULL"
  proof (cases "ptr = NULL")
    case True
    with r show ?thesis by (simp add: ufree_def)
  next
    case False
    with r have "rc = 0"
      by (auto simp: ufree_def after_def Let_def split: option.splits sum.splits if_splits prod.splits)
    with False show ?thesis by (simp add: UMEM_ERROR_def)
  qed
qed

lemma best_b1:
  "umalloc 100 (boot BEST_FIT) = Some (Inr (65544, best_b1))"
  "memory_region best_b1 = 65536" "region_size best_b1 = 4096" "free_list best_b1 = 65648"
  "load best_b1 65536 = 104" "load best_b1 65648 = 3976" "load best_b1 65656 = 0"
  unfolding best_b1_def by (simp_all add: run boot_facts)

lemma best_b2: "ufree 65544 best_b1 = Some (Inr (0, best_b2))"
  unfolding best_b2_def by (simp add: run best_b1)

text \<open>
  C10, on a run: under best fit, after \<^verbatim>\<open>umalloc(100)\<close> has returned 65544, releasing the
  null pointer returns the error and leaves the state as it was, and releasing 65544
  returns 0.
\<close>

theorem ufree_error_iff_null_witness:
  "ufree NULL best_b1 = Some (Inr (UMEM_ERROR, best_b1)) \<and>
   ufree 65544 best_b1 = Some (Inr (0, best_b2)) \<and>
   ((0 :: int) = UMEM_ERROR \<longleftrightarrow> (65544 :: addr) = NULL)"
proof -
  from ufree_error_iff_null [of best_b1]
  have n: "ufree NULL best_b1 = Some (Inr (UMEM_ERROR, best_b1))"
    and r: "ufree 65544 best_b1 = Some (Inr (0, best_b2)) \<longrightarrow>
      ((0 :: int) = UMEM_ERROR \<longleftrightarrow> (65544 :: addr) = NULL)"
    by blast+
  from n r best_b2 show ?thesis by blast
qed

section \<open>The next-fit cursor\<close>

lemma next_c1:
  "umalloc 100 (boot NEXT_FIT) = Some (Inr (65656, next_c1))"
  "memory_region next_c1 = 65536" "region_size next_c1 = 4096" "free_list next_c1 = 65536"
  "last_allocated next_c1 = 65648" "alloc_algo next_c1 = NEXT_FIT"
  "load next_c1 65536 = 104" "load next_c1 65544 = 0"
  "load next_c1 65648 = 3976" "load next_c1 65656 = 0"
  unfolding next_c1_def by (simp_all add: run boot_facts)

text \<open>
  C7 as stated fails. After the first \<^verbatim>\<open>umalloc(100)\<close> under next fit the registry is the
  single block at 65536, the cursor is 65648, which is not in the registry, and the test
  at the head of the next call leaves the cursor where it is.
\<close>

theorem next_fit_cursor_stale:
  "registry next_c1 [65536] \<and> last_allocated next_c1 \<notin> set [65536] \<and>
   last_allocated (next_fit_cursor next_c1) \<noteq> free_list next_c1"
  using next_c1 by (simp add: registry_def load_def next_fit_cursor_def)

text \<open>
  C7, amended. At the start of an allocate call under next fit the cursor is kept exactly
  when it lies inside the address bounds of the region, whether or not the block it
  refers to is in the registry; a cursor that is null or outside these bounds is
  replaced by the registry head. The scan starts at the resulting cursor.
\<close>

theorem next_fit_cursor_bounds:
  assumes "region_ok s"
  shows "last_allocated (next_fit_cursor s) =
     (if unat (memory_region s) \<le> unat (last_allocated s) \<and>
         unat (last_allocated s) < unat (memory_region s) + unat (region_size s)
      then last_allocated s else free_list s) \<and>
   next_fit_algorithm n s =
     next_fit_loop (next_fit_cursor s) (align_up n) (last_allocated (next_fit_cursor s))"
proof -
  from assms have base: "4096 \<le> unat (memory_region s)"
    and e: "unat (memory_region s + region_size s) = unat (memory_region s) + unat (region_size s)"
    by (simp_all add: region_ok_def PAGE_SIZE_def unat_plus)
  have "last_allocated s = NULL \<Longrightarrow> unat (last_allocated s) < unat (memory_region s)"
    using base by simp
  then have "last_allocated (next_fit_cursor s) =
     (if unat (memory_region s) \<le> unat (last_allocated s) \<and>
         unat (last_allocated s) < unat (memory_region s) + unat (region_size s)
      then last_allocated s else free_list s)"
    by (auto simp: next_fit_cursor_def word_less_nat_alt word_le_nat_alt e)
  then show ?thesis
    by (simp add: next_fit_algorithm_def Let_def align_up_def)
qed

lemma region_ok_boot: "region_ok (boot a)"
  by (simp add: region_ok_def PAGE_SIZE_def boot_facts)

text \<open>
  C7, amended, on a run: the null cursor of a fresh allocator becomes the head 65536, and
  the cursor 65648 left by the first allocation, which lies in the region, is kept.
\<close>

theorem next_fit_cursor_bounds_witness:
  "region_ok (boot NEXT_FIT) \<and> region_ok next_c1 \<and>
   last_allocated (next_fit_cursor (boot NEXT_FIT)) = 65536 \<and>
   last_allocated (next_fit_cursor next_c1) = 65648"
proof -
  have h0: "region_ok (boot NEXT_FIT)" by (rule region_ok_boot)
  have h1: "region_ok next_c1" by (simp add: region_ok_def PAGE_SIZE_def next_c1)
  from next_fit_cursor_bounds [OF h0] next_fit_cursor_bounds [OF h1] h0 h1
  show ?thesis by (simp add: boot_facts next_c1)
qed

section \<open>Worst fit\<close>

text \<open>
  C2 at the failing input. Under worst fit the registry of a fresh 4096-byte region holds
  one block of size 4088, and \<^verbatim>\<open>umalloc(4088)\<close> returns the null pointer and changes
  nothing: a block whose size equals the request has difference 0, which is never
  greater than the initial \<^verbatim>\<open>largest_diff = 0\<close>.
\<close>

theorem worst_fit_refuses_exact_fit:
  "registry (boot WORST_FIT) [65536] \<and> load (boot WORST_FIT) 65536 = 4088 \<and>
   umalloc 4088 (boot WORST_FIT) = Some (Inr (NULL, boot WORST_FIT))"
  by (simp add: registry_boot run boot_facts)

lemma worst_b1:
  "umalloc 4072 (boot WORST_FIT) = Some (Inr (65544, worst_b1))"
  "memory_region worst_b1 = 65536" "region_size worst_b1 = 4096" "free_list worst_b1 = NULL"
  "alloc_algo worst_b1 = WORST_FIT" "load worst_b1 65536 = 4072" "load worst_b1 65544 = 0"
  unfolding worst_b1_def by (simp_all add: run boot_facts)

lemma worst_b2:
  "ufree 65544 worst_b1 = Some (Inr (0, worst_b2))"
  "memory_region worst_b2 = 65536" "region_size worst_b2 = 4096" "free_list worst_b2 = 65536"
  "alloc_algo worst_b2 = WORST_FIT" "load worst_b2 65536 = 4072" "load worst_b2 65544 = 0"
  unfolding worst_b2_def by (simp_all add: run worst_b1)

text \<open>
  C8 at the failing input. Under worst fit \<^verbatim>\<open>umalloc(4072)\<close> returns 65544 and writes
  4072 into the header; after \<^verbatim>\<open>ufree(65544)\<close> the registry holds that block of size
  4072, and the second \<^verbatim>\<open>umalloc(4072)\<close> returns the null pointer.
\<close>

theorem worst_fit_round_trip_fails:
  "umalloc 4072 (boot WORST_FIT) = Some (Inr (65544, worst_b1)) \<and>
   ufree 65544 worst_b1 = Some (Inr (0, worst_b2)) \<and>
   registry worst_b2 [65536] \<and> load worst_b2 65536 = 4072 \<and>
   umalloc 4072 worst_b2 = Some (Inr (NULL, worst_b2))"
  by (simp add: worst_b1 worst_b2 registry_def load_def [symmetric])
     (simp add: run worst_b2)

lemma boot_tail: "load (boot a) 69619 = 0"
  by (simp add: boot_def umeminit_def startup_def os_mmap_def PAGE_SIZE_def MAP_FAILED_def
      Let_def load_def read64_write64_disj read64_zero)

lemma worst_lost:
  "umalloc 4075 (boot WORST_FIT) = Some (Inr (65544, worst_lost))"
  "memory_region worst_lost = 65536" "region_size worst_lost = 4096"
  "load worst_lost 65536 = 4075" "load worst_lost 69619 = 0"
  unfolding worst_lost_def by (simp_all add: run boot_facts boot_tail)

lemma tiles_Cons:
  "tiles s a (b # bs) \<Longrightarrow>
     b = of_nat a \<and> mapped s (of_nat a) \<and> tiles s (a + 8 + unat (load s (of_nat a))) bs"
  by auto

lemma partition_boot: "partition (boot a) [65536]"
  by (simp add: partition_def mapped_def boot_facts)

lemma worst_lost_no_partition: "\<not> partition worst_lost bs"
proof
  assume "partition worst_lost bs"
  then have t0: "tiles worst_lost 65536 bs"
    by (simp add: partition_def worst_lost)
  show False
  proof (cases bs)
    case Nil
    with t0 show False by (simp add: worst_lost)
  next
    case (Cons b1 bs1)
    from tiles_Cons [OF t0 [unfolded Cons]]
    have t1: "tiles worst_lost 69619 bs1" by (simp add: worst_lost)
    show False
    proof (cases bs1)
      case Nil
      with t1 show False by (simp add: worst_lost)
    next
      case (Cons b2 bs2)
      from tiles_Cons [OF t1 [unfolded Cons]]
      have t2: "tiles worst_lost 69627 bs2" by (simp add: worst_lost)
      show False
      proof (cases bs2)
        case Nil
        with t2 show False by (simp add: worst_lost)
      next
        case (Cons b3 bs3)
        from tiles_Cons [OF t2 [unfolded Cons]]
        have "mapped worst_lost 69627" by simp
        then show False by (simp add: mapped_def worst_lost)
      qed
    qed
  qed
qed

text \<open>
  C1 at the failing input. The fresh region is tiled by its one block. Under worst fit
  \<^verbatim>\<open>umalloc(4075)\<close> takes the whole block without a split and then writes 4075 into
  its header, and in the state it leaves no list of blocks tiles the region: the block
  at the base now ends 13 bytes before the end of the region.
\<close>

theorem worst_fit_breaks_partition:
  "partition (boot WORST_FIT) [65536] \<and>
   umalloc 4075 (boot WORST_FIT) = Some (Inr (65544, worst_lost)) \<and>
   (\<forall>bs. \<not> partition worst_lost bs)"
  using partition_boot worst_lost(1) worst_lost_no_partition by blast

section \<open>Next fit\<close>

lemma next_spin_facts:
  "memory_region next_spin = 65536" "region_size next_spin = 4096" "free_list next_spin = 65536"
  "last_allocated next_spin = 65536" "load next_spin 65536 = 104" "load next_spin 65544 = 0"
  "next_spin\<lparr>last_allocated := 65536\<rparr> = next_spin"
  using next_c1 by (simp_all add: next_spin_def)

lemma next_spin_never:
  assumes "next_fit_loop next_spin 5000 65648 = Some y"
  shows False
proof -
  from assms
  have "\<not> (next_spin = next_spin \<and> (5000 :: 64 word) = 5000 \<and> (65648 :: addr) = 65648)"
  proof (rule next_fit_loop.raw_induct [rotated, where P = "\<lambda>s sz start y.
      \<not> (s = next_spin \<and> sz = 5000 \<and> start = 65648)"], goal_cases)
    case (1 f s sz start sa)
    show ?case
    proof
      assume "s = next_spin \<and> sz = 5000 \<and> start = 65648"
      with 1(2) have "f next_spin 5000 65648 = Some sa"
        by (simp add: next_spin_facts mapped_def Let_def)
      from 1(1) [OF this] show False by simp
    qed
  qed
  then show False by simp
qed

lemma next_spin_None: "next_fit_loop next_spin 5000 65648 = None"
  using next_spin_never by (cases "next_fit_loop next_spin 5000 65648") auto

text \<open>
  C9 at the failing input. Under next fit the first \<^verbatim>\<open>umalloc(100)\<close> returns, and the
  call \<^verbatim>\<open>umalloc(5000)\<close> that follows it does not: the scan starts at the cursor
  65648, which is not in the list, wraps to the head 65536 and from then on goes from the
  head to the head without ever meeting the start again.
\<close>

theorem next_fit_never_returns:
  "umalloc 100 (boot NEXT_FIT) = Some (Inr (65656, next_c1)) \<and> umalloc 5000 next_c1 = None"
proof -
  have "next_fit_loop next_c1 5000 65648 = next_fit_loop next_spin 5000 65648"
    by (subst next_fit_loop.simps) (simp add: next_c1 mapped_def Let_def next_spin_def)
  then have "umalloc 5000 next_c1 = None"
    by (simp add: umalloc_def next_fit_algorithm_def next_fit_cursor_def next_c1 next_spin_None)
  with next_c1(1) show ?thesis by simp
qed

lemma next_a1:
  "umalloc 4040 (boot NEXT_FIT) = Some (Inr (69592, next_a1))"
  "memory_region next_a1 = 65536" "region_size next_a1 = 4096" "free_list next_a1 = 65536"
  "last_allocated next_a1 = 69584" "alloc_algo next_a1 = NEXT_FIT"
  "load next_a1 65536 = 4040" "load next_a1 65544 = 0" "load next_a1 69584 = 40" "load next_a1 69592 = 0"
  unfolding next_a1_def by (simp_all add: run boot_facts)

lemma next_a2:
  "umalloc 500 next_a1 = Some (Inr (66056, next_a2))"
  "memory_region next_a2 = 65536" "region_size next_a2 = 4096" "free_list next_a2 = 65536"
  "last_allocated next_a2 = 66048" "alloc_algo next_a2 = NEXT_FIT"
  "load next_a2 65536 = 504" "load next_a2 65544 = 0" "load next_a2 69584 = 40" "load next_a2 69592 = 0"
  "load next_a2 66048 = 3528" "load next_a2 66056 = 0"
  unfolding next_a2_def by (simp_all add: run next_a1)

lemma next_a3:
  "ufree 66056 next_a2 = Some (Inr (0, next_a3))"
  "memory_region next_a3 = 65536" "region_size next_a3 = 4096" "free_list next_a3 = 65536"
  "last_allocated next_a3 = 66048" "alloc_algo next_a3 = NEXT_FIT"
  "load next_a3 65536 = 4040" "load next_a3 65544 = 0" "load next_a3 69584 = 40" "load next_a3 69592 = 0"
  "load next_a3 66048 = 3528" "load next_a3 66056 = 0"
  unfolding next_a3_def by (simp_all add: run next_a2)

lemma next_a4:
  "umalloc 100 next_a3 = Some (Inr (66168, next_a4))"
  "memory_region next_a4 = 65536" "region_size next_a4 = 4096" "free_list next_a4 = 65536"
  "last_allocated next_a4 = 66160" "alloc_algo next_a4 = NEXT_FIT"
  "load next_a4 65536 = 4040" "load next_a4 65544 = 0" "load next_a4 69584 = 40" "load next_a4 69592 = 0"
  "load next_a4 66048 = 104" "load next_a4 66056 = 0" "load next_a4 66160 = 3416" "load next_a4 66168 = 0"
  unfolding next_a4_def by (simp_all add: run next_a3)

lemma next_a5:
  "umalloc 100 next_a4 = Some (Inr (66280, next_a5))"
  "memory_region next_a5 = 65536" "region_size next_a5 = 4096" "free_list next_a5 = 65536"
  "last_allocated next_a5 = 66272" "alloc_algo next_a5 = NEXT_FIT"
  "load next_a5 65536 = 4040" "load next_a5 65544 = 0" "load next_a5 69584 = 40" "load next_a5 69592 = 0"
  "load next_a5 66160 = 104" "load next_a5 66168 = 0"
  unfolding next_a5_def by (simp_all add: run next_a4)

lemma next_a6:
  "ufree 66168 next_a5 = Some (Inr (0, next_a6))"
  "memory_region next_a6 = 65536" "region_size next_a6 = 4096" "free_list next_a6 = 65536"
  "last_allocated next_a6 = 66272" "alloc_algo next_a6 = NEXT_FIT"
  "load next_a6 65536 = 4040" "load next_a6 65544 = 66160" "load next_a6 69584 = 40" "load next_a6 69592 = 0"
  "load next_a6 66160 = 104" "load next_a6 66168 = 0"
  unfolding next_a6_def by (simp_all add: run next_a5)

lemma next_a7:
  "ufree 69592 next_a6 = Some (Inr (0, next_a7))"
  "free_list next_a7 = 65536"
  "load next_a7 65536 = 4040" "load next_a7 65544 = 66160" "load next_a7 69584 = 40" "load next_a7 69592 = 0"
  "load next_a7 66160 = 104" "load next_a7 66168 = 69584"
  unfolding next_a7_def by (simp_all add: run next_a6)

text \<open>
  C5 at the failing input. Under next fit: \<^verbatim>\<open>umalloc(4040)\<close> returns 69592,
  \<^verbatim>\<open>umalloc(500)\<close> returns 66056, \<^verbatim>\<open>ufree(66056)\<close> merges that block into the block at
  65536 and leaves the cursor inside the merged block, two calls \<^verbatim>\<open>umalloc(100)\<close> return
  66168 and 66280 out of the merged free block, \<^verbatim>\<open>ufree(66168)\<close> and then
  \<^verbatim>\<open>ufree(69592)\<close> return. After this last release the registry is 65536, 66160,
  69584, and the entry at 65536, of size 4040, ends exactly where the entry at 69584
  starts: two registry entries are adjacent.
\<close>

theorem release_leaves_adjacent_entries:
  "umalloc 4040 (boot NEXT_FIT) = Some (Inr (69592, next_a1)) \<and>
   umalloc 500 next_a1 = Some (Inr (66056, next_a2)) \<and>
   ufree 66056 next_a2 = Some (Inr (0, next_a3)) \<and>
   umalloc 100 next_a3 = Some (Inr (66168, next_a4)) \<and>
   umalloc 100 next_a4 = Some (Inr (66280, next_a5)) \<and>
   ufree 66168 next_a5 = Some (Inr (0, next_a6)) \<and>
   ufree 69592 next_a6 = Some (Inr (0, next_a7)) \<and>
   registry next_a7 [65536, 66160, 69584] \<and>
   65536 + 8 + load next_a7 65536 = 69584"
  using next_a1(1) next_a2(1) next_a3(1) next_a4(1) next_a5(1) next_a6(1) next_a7
  by (simp add: registry_def load_def)

lemma next_d1:
  "umalloc 4072 (boot NEXT_FIT) = Some (Inr (65544, next_d1))"
  "memory_region next_d1 = 65536" "region_size next_d1 = 4096" "free_list next_d1 = 65536"
  "load next_d1 65536 = 4088" "load next_d1 65544 = 0"
  unfolding next_d1_def by (simp_all add: run boot_facts)

lemma next_knot_facts:
  "memory_region next_knot = 65536" "region_size next_knot = 4096"
  "load next_knot 65536 = 4088" "load next_knot 65544 = 65536"
  using next_d1 by (simp_all add: next_knot_def load_store_disj)

lemma next_knot_never:
  assumes "coalescing_loop next_knot 65536 = Some y"
  shows False
proof -
  from assms have "\<not> (next_knot = next_knot \<and> (65536 :: addr) = 65536)"
  proof (rule coalescing_loop.raw_induct [rotated, where P = "\<lambda>s current_block y.
      \<not> (s = next_knot \<and> current_block = 65536)"], goal_cases)
    case (1 f s current_block sa)
    show ?case
    proof
      assume "s = next_knot \<and> current_block = 65536"
      with 1(2) have "f next_knot 65536 = Some sa"
        by (simp add: next_knot_facts mapped_def Let_def)
      from 1(1) [OF this] show False by simp
    qed
  qed
  then show False by simp
qed

lemma release_never_returns:
  "umalloc 4072 (boot NEXT_FIT) = Some (Inr (65544, next_d1)) \<and> registry next_d1 [65536] \<and>
   ufree 65544 next_d1 = None"
proof -
  have "coalescing_loop next_knot 65536 = None"
    using next_knot_never by (cases "coalescing_loop next_knot 65536") auto
  then have "ufree 65544 next_d1 = None"
    by (simp add: ufree_def load_c_def store_c_def after_def mapped_def next_d1 ufree_scan.simps
        coalescing_memory_def next_knot_def [symmetric])
  with next_d1 show ?thesis by (simp add: registry_def load_def)
qed

section \<open>Best fit chooses the tightest block\<close>


lemma best_w1:
  "umalloc 16 (boot BEST_FIT) = Some (Inr (65544, best_w1))"
  "memory_region best_w1 = 65536" "region_size best_w1 = 4096" "free_list best_w1 = 65560"
  "alloc_algo best_w1 = BEST_FIT"
  "load best_w1 65536 = 16" "load best_w1 65560 = 4064" "load best_w1 65568 = 0"
  unfolding best_w1_def by (simp_all add: run boot_facts)

lemma best_w2:
  "umalloc 8 best_w1 = Some (Inr (65568, best_w2))"
  "memory_region best_w2 = 65536" "region_size best_w2 = 4096" "free_list best_w2 = 65576"
  "alloc_algo best_w2 = BEST_FIT"
  "load best_w2 65536 = 16" "load best_w2 65560 = 8" "load best_w2 65576 = 4048"
  "load best_w2 65584 = 0"
  unfolding best_w2_def by (simp_all add: run best_w1)

lemma best_w3:
  "umalloc 16 best_w2 = Some (Inr (65584, best_w3))"
  "memory_region best_w3 = 65536" "region_size best_w3 = 4096" "free_list best_w3 = 65600"
  "alloc_algo best_w3 = BEST_FIT"
  "load best_w3 65536 = 16" "load best_w3 65560 = 8" "load best_w3 65576 = 16"
  "load best_w3 65600 = 4024" "load best_w3 65608 = 0"
  unfolding best_w3_def by (simp_all add: run best_w2)

lemma best_w4:
  "umalloc 8 best_w3 = Some (Inr (65608, best_w4))"
  "memory_region best_w4 = 65536" "region_size best_w4 = 4096" "free_list best_w4 = 65616"
  "alloc_algo best_w4 = BEST_FIT"
  "load best_w4 65536 = 16" "load best_w4 65560 = 8" "load best_w4 65576 = 16"
  "load best_w4 65600 = 8" "load best_w4 65616 = 4008" "load best_w4 65624 = 0"
  unfolding best_w4_def by (simp_all add: run best_w3)

lemma best_w5:
  "ufree 65544 best_w4 = Some (Inr (0, best_w5))"
  "memory_region best_w5 = 65536" "region_size best_w5 = 4096" "free_list best_w5 = 65536"
  "alloc_algo best_w5 = BEST_FIT"
  "load best_w5 65536 = 16" "load best_w5 65544 = 65616" "load best_w5 65576 = 16"
  "load best_w5 65616 = 4008" "load best_w5 65624 = 0"
  unfolding best_w5_def by (simp_all add: run best_w4)

lemma best_w6:
  "ufree 65584 best_w5 = Some (Inr (0, best_w6))"
  "memory_region best_w6 = 65536" "region_size best_w6 = 4096" "free_list best_w6 = 65536"
  "alloc_algo best_w6 = BEST_FIT"
  "load best_w6 65536 = 16" "load best_w6 65544 = 65576" "load best_w6 65576 = 16"
  "load best_w6 65584 = 65616" "load best_w6 65616 = 4008" "load best_w6 65624 = 0"
  unfolding best_w6_def by (simp_all add: run best_w5)

lemma best_w7:
  "umalloc 10 best_w6 = Some (Inr (65544, best_w7))"
  "load best_w7 65536 = 16"
  unfolding best_w7_def by (simp_all add: run best_w6 zero_less_max)

lemma best_w8:
  "umalloc 100 best_w6 = Some (Inr (65624, best_w8))"
  "load best_w8 65616 = 104" "load best_w8 65728 = 3896"
  unfolding best_w8_def by (simp_all add: run best_w6)

lemma best_w6_wf: "wf_registry best_w6 [65536, 65576, 65616]"
  using best_w6
  by (simp add: wf_registry_def region_ok_def PAGE_SIZE_def registry_def load_def)


section \<open>The header of an allocated block\<close>

lemma best_e1:
  "umalloc 4080 (boot BEST_FIT) = Some (Inr (65544, best_e1))"
  "load best_e1 65536 = 4088"
  unfolding best_e1_def by (simp_all add: run boot_facts)

text \<open>
  C6 as stated fails. Under best fit \<^verbatim>\<open>umalloc(4080)\<close> on the fresh region takes the
  block of size 4088 whole, because the remainder of 8 bytes is not more than a header
  and a pointer, and the header of the returned block still holds 4088, not the
  request 4080.
\<close>

theorem best_fit_keeps_header_of_whole_block:
  "umalloc 4080 (boot BEST_FIT) = Some (Inr (65544, best_e1)) \<and>
   align_up 4080 = 4080 \<and> load best_e1 (65544 - 8) = 4088"
  using best_e1 by (simp add: align_up_values)

text \<open>
  C6, amended. Under first fit and best fit, on a well-formed registry and for a request
  up to the region size, a successful allocate returns a block of the registry whose size
  was at least the rounded request; the header of the returned block holds exactly the
  rounded request when the block was split, which first fit does when the size exceeds
  the rounded request by more than 8 and best fit when by more than 16, and otherwise
  the header keeps the size of the whole block. In both cases the header holds at least
  the requested size.
\<close>

theorem header_after_allocation:
  assumes wf: "wf_registry s xs" and fit: "unat n \<le> unat (region_size s)"
    and alg: "alloc_algo s = FIRST_FIT \<or> alloc_algo s = BEST_FIT"
    and run: "umalloc n s = Some (Inr (p, s'))" and p: "p \<noteq> NULL"
  shows "p - 8 \<in> set xs \<and> align_up n \<le> load s (p - 8) \<and>
     load s' (p - 8) =
       (if unat (align_up n) + (if alloc_algo s = FIRST_FIT then 8 else 16) < unat (load s (p - 8))
        then align_up n else load s (p - 8)) \<and>
     n \<le> load s' (p - 8)"
proof -
  from wf have ok: "region_ok s" by (simp add: wf_registry_def)
  note nw = request_fits [OF ok fit]
  define a where "a = align_up n"
  note al = align_up_facts [OF nw, folded a_def]
  from alg show ?thesis
  proof
    assume ff: "alloc_algo s = FIRST_FIT"
    with run have r: "first_fit_algorithm n s = Some (Inr (p, s'))"
      by (simp add: umalloc_def)
    from first_fit_run [OF wf nw, folded a_def] r p obtain ys b zs where
      d: "xs = ys @ b # zs" "a \<le> load s b" "p = b + 8"
        "load s' b = (if unat a + 8 < unat (load s b) then a else load s b)"
      by auto
    from d(2) al(2) have "n \<le> load s b" by simp
    with d al(2) ff show ?thesis by (simp add: a_def)
  next
    assume bf: "alloc_algo s = BEST_FIT"
    with run have r: "best_fit_algorithm n s = Some (Inr (p, s'))"
      by (simp add: umalloc_def)
    from best_fit_run [OF wf, of n, folded a_def] r p obtain ys b zs where
      d: "xs = ys @ b # zs" "a \<le> load s b" "p = b + 8"
        "load s' b = (if 16 < load s b - a then a else load s b)"
      by auto
    from d(2) have "16 < load s b - a \<longleftrightarrow> unat a + 16 < unat (load s b)"
      by (auto simp: word_less_nat_alt unat_minus_le)
    moreover from d(2) al(2) have "n \<le> load s b" by simp
    ultimately show ?thesis using d al(2) bf by (simp add: a_def)
  qed
qed

text \<open>
  C6, amended, on a run: the request of 10 bytes on the registry 65536, 65576, 65616 under
  best fit.
\<close>

theorem header_after_allocation_witness:
  "wf_registry best_w6 [65536, 65576, 65616] \<and>
   unat (10 :: 64 word) \<le> unat (region_size best_w6) \<and>
   (alloc_algo best_w6 = FIRST_FIT \<or> alloc_algo best_w6 = BEST_FIT) \<and>
   umalloc 10 best_w6 = Some (Inr (65544, best_w7)) \<and>
   align_up 10 \<le> load best_w6 (65544 - 8) \<and>
   (10 :: 64 word) \<le> load best_w7 (65544 - 8)"
proof -
  have h1: "wf_registry best_w6 [65536, 65576, 65616]" by (rule best_w6_wf)
  have h2: "unat (10 :: 64 word) \<le> unat (region_size best_w6)" by (simp add: best_w6)
  have h3: "alloc_algo best_w6 = FIRST_FIT \<or> alloc_algo best_w6 = BEST_FIT"
    by (simp add: best_w6)
  have h4: "(65544 :: addr) \<noteq> NULL" by simp
  from header_after_allocation [OF h1 h2 h3 best_w7(1) h4] h1 h2 h3 best_w7(1)
  show ?thesis by blast
qed

section \<open>Splitting\<close>

lemma first_f1:
  "umalloc 100 (boot FIRST_FIT) = Some (Inr (65544, first_f1))"
  "free_list first_f1 = NULL" "alloc_algo first_f1 = FIRST_FIT"
  "load first_f1 65536 = 104" "load first_f1 65648 = 3976"
  unfolding first_f1_def by (simp_all add: run boot_facts)

text \<open>
  C3 at the failing input. Under first fit the registry of a fresh 4096-byte region holds
  the block at 65536, whose size 4088 exceeds the rounded request of \<^verbatim>\<open>umalloc(100)\<close> plus a
  header and a pointer. The call splits the block: the header becomes the rounded request
  104 and the residual block behind the payload gets the remaining size minus the header,
  3976. But the residual is not linked into the registry: with no previous block the list
  head is set to the old successor of the selected block, so the registry is empty and the
  next \<^verbatim>\<open>umalloc(100)\<close> returns the null pointer.
\<close>

theorem first_fit_drops_residual:
  "registry (boot FIRST_FIT) [65536] \<and>
   unat (align_up 100) + 8 + 8 < unat (load (boot FIRST_FIT) 65536) \<and>
   umalloc 100 (boot FIRST_FIT) = Some (Inr (65544, first_f1)) \<and>
   load first_f1 65536 = align_up 100 \<and>
   load first_f1 (65536 + 8 + align_up 100) = load (boot FIRST_FIT) 65536 - align_up 100 - 8 \<and>
   registry first_f1 [] \<and>
   umalloc 100 first_f1 = Some (Inr (NULL, first_f1))"
  using first_f1 registry_boot [of FIRST_FIT]
  by (simp add: boot_facts align_up_values registry_def umalloc_def first_fit_algorithm_def
      first_fit_scan.simps after_def)

lemma first_e1:
  "umalloc 4072 (boot FIRST_FIT) = Some (Inr (65544, first_e1))"
  "load first_e1 65536 = 4072" "load first_e1 69616 = 8"
  unfolding first_e1_def by (simp_all add: run boot_facts)

text \<open>
  The split test of first fit. Under first fit \<^verbatim>\<open>umalloc(4072)\<close> on the fresh region finds
  the block of size 4088, which does not exceed the request plus a header plus a pointer
  (4072 + 8 + 8), and splits it all the same: the header of the block becomes 4072 and a
  new header with size 8 is written behind the payload. The test in
  \<^verbatim>\<open>first_fit_algorithm\<close> is \<^verbatim>\<open>block_size > size + sizeof(size_t)\<close>.
\<close>

theorem first_fit_splits_at_smaller_remainder:
  "umalloc 4072 (boot FIRST_FIT) = Some (Inr (65544, first_e1)) \<and>
   load (boot FIRST_FIT) 65536 = 4088 \<and>
   \<not> unat (align_up 4072) + 8 + 8 < unat (load (boot FIRST_FIT) 65536) \<and>
   load first_e1 65536 = 4072 \<and> load first_e1 (65536 + 8 + 4072) = 8"
  using first_e1 by (simp add: boot_facts align_up_values)

text \<open>
  The splitter of best fit. Under best fit, on a well-formed registry and for a request of at least
  one byte and at most the region size, the selected block is split exactly when its
  size exceeds the rounded request plus the header size plus one pointer width. When it
  is split, the header of the allocated block holds exactly the rounded request, the new
  block right behind the payload has the remaining size minus the header, and the
  registry is the old one with the new block in the place of the selected block.
  Otherwise the block keeps its size and the registry is the old one without it.
\<close>

theorem best_fit_splitter:
  assumes wf: "wf_registry s xs" and pos: "0 < n" and fit: "unat n \<le> unat (region_size s)"
    and run: "best_fit_algorithm n s = Some (Inr (p, s'))" and p: "p \<noteq> NULL"
  shows "\<exists>ys zs. xs = ys @ (p - 8) # zs \<and>
     (if unat (align_up n) + 8 + 8 < unat (load s (p - 8))
      then load s' (p - 8) = align_up n \<and>
           load s' (p + align_up n) = load s (p - 8) - align_up n - 8 \<and>
           registry s' (ys @ (p + align_up n) # zs)
      else load s' (p - 8) = load s (p - 8) \<and> registry s' (ys @ zs))"
proof -
  from wf have ok: "region_ok s" by (simp add: wf_registry_def)
  note nw = request_fits [OF ok fit]
  define a where "a = align_up n"
  note al = align_up_facts [OF nw, folded a_def]
  from best_fit_run [OF wf, of n, folded a_def] run p obtain ys b zs where
    d: "xs = ys @ b # zs" "a \<le> load s b" "p = b + 8"
      "load s' b = (if 16 < load s b - a then a else load s b)"
      "16 < load s b - a \<longrightarrow> load s' (b + 8 + a) = load s b - a - 8 \<and>
          (8 \<le> unat a \<longrightarrow> registry s' (ys @ (b + 8 + a) # zs))"
      "\<not> 16 < load s b - a \<longrightarrow> registry s' (ys @ zs)"
    by auto
  from d(2) have c: "16 < load s b - a \<longleftrightarrow> unat a + 8 + 8 < unat (load s b)"
    by (auto simp: word_less_nat_alt unat_minus_le)
  from d c al(4) [OF pos] have "xs = ys @ (p - 8) # zs \<and>
     (if unat a + 8 + 8 < unat (load s (p - 8))
      then load s' (p - 8) = a \<and> load s' (p + a) = load s (p - 8) - a - 8 \<and>
           registry s' (ys @ (p + a) # zs)
      else load s' (p - 8) = load s (p - 8) \<and> registry s' (ys @ zs))"
    by (simp add: add.commute add.left_commute)
  then show ?thesis unfolding a_def by blast
qed

text \<open>
  The splitter of best fit, on a run: a request of 100 bytes on the registry 65536, 65576, 65616 under
  best fit splits the block at 65616.
\<close>

theorem best_fit_splitter_witness:
  "wf_registry best_w6 [65536, 65576, 65616] \<and>
   unat (100 :: 64 word) \<le> unat (region_size best_w6) \<and>
   best_fit_algorithm 100 best_w6 = Some (Inr (65624, best_w8)) \<and>
   unat (align_up 100) + 8 + 8 < unat (load best_w6 (65624 - 8)) \<and>
   load best_w8 (65624 - 8) = align_up 100 \<and>
   load best_w8 (65624 + align_up 100) = load best_w6 (65624 - 8) - align_up 100 - 8"
proof -
  have h1: "wf_registry best_w6 [65536, 65576, 65616]" by (rule best_w6_wf)
  have h2: "unat (100 :: 64 word) \<le> unat (region_size best_w6)" by (simp add: best_w6)
  have h3: "(0 :: 64 word) < 100" by simp
  have h4: "(65624 :: addr) \<noteq> NULL" by simp
  have ev: "best_fit_algorithm 100 best_w6 = Some (Inr (65624, best_w8))"
    using best_w8(1) by (simp add: umalloc_def best_w6)
  have c: "unat (align_up 100) + 8 + 8 < unat (load best_w6 (65624 - 8))"
    by (simp add: align_up_values best_w6)
  from best_fit_splitter [OF h1 h3 h2 ev h4] c
  have "load best_w8 (65624 - 8) = align_up 100 \<and>
    load best_w8 (65624 + align_up 100) = load best_w6 (65624 - 8) - align_up 100 - 8"
    by auto
  with h1 h2 ev c show ?thesis by blast
qed

end
